theory Spec2Isabelle
  imports Main "HOL-Library.AList"
begin

section \<open>Dependency identity: \<open>antidote/container/base.py\<close>\<close>

text \<open>
  A lookup key of the container is either a bare dependency id or an instance of the
  class \<open>Dependency\<close> wrapping one. The constructor of \<open>Dependency\<close> asserts that the
  wrapped id is not itself a \<open>Dependency\<close>; the type below has no nested wrapper.
  The hash of a bare id is a parameter \<open>h\<close>. Two ids are the same object when they
  are equal in HOL.

  The container is modelled for ids that \<open>==\<close> compares structurally and that leave
  the comparison with an object of another type to that object, as strings, numbers
  other than \<open>nan\<close>, classes and plain marker objects do: for them \<open>==\<close> on ids is
  HOL equality. The comparison for an arbitrary \<open>__eq__\<close> of the id is \<open>py_eq_on\<close>
  below, and \<open>py_eq_on_structural\<close> shows that the two agree on such ids.
\<close>

datatype 'k key = Id 'k | Dependency 'k

text \<open>\<open>self.id == other\<close> for a bare \<open>self.id\<close> compared structurally: against a wrapper
  the id answers \<open>NotImplemented\<close> and the comparison is reflected to
  \<open>Dependency.__eq__(other, self.id)\<close>, whose first disjunct decides.\<close>

fun id_eq :: "'k \<Rightarrow> 'k key \<Rightarrow> bool" where
  "id_eq i (Id y) = (i = y)"
| "id_eq i (Dependency y) = (y = i)"

fun isinstance_Dependency :: "'k key \<Rightarrow> bool" where
  "isinstance_Dependency (Id y) = False"
| "isinstance_Dependency (Dependency y) = True"

fun key_id :: "'k key \<Rightarrow> 'k" where
  "key_id (Id y) = y"
| "key_id (Dependency y) = y"

text \<open>\<open>Dependency.__eq__(self, other)\<close>, with \<open>self.id = i\<close>.\<close>

definition Dependency_eq :: "'k \<Rightarrow> 'k key \<Rightarrow> bool" where
  "Dependency_eq i other =
     (id_eq i other \<or> (isinstance_Dependency other \<and> i = key_id other))"

text \<open>\<open>Dependency.__hash__(self)\<close>.\<close>

definition Dependency_hash :: "('k \<Rightarrow> int) \<Rightarrow> 'k \<Rightarrow> int" where
  "Dependency_hash h i = h i"

text \<open>Python's \<open>a == b\<close> and \<open>hash(a)\<close> on keys.\<close>

fun py_eq :: "'k key \<Rightarrow> 'k key \<Rightarrow> bool" where
  "py_eq (Id x) other = id_eq x other"
| "py_eq (Dependency x) other = Dependency_eq x other"

fun py_hash :: "('k \<Rightarrow> int) \<Rightarrow> 'k key \<Rightarrow> int" where
  "py_hash h (Id x) = h x"
| "py_hash h (Dependency x) = Dependency_hash h x"

subsection \<open>The singleton cache: a Python dict\<close>

text \<open>
  A dict is an association list in insertion order. A stored key answers a probe when
  the hashes agree and \<open>==\<close> holds. Assigning to a key that is already present keeps
  the stored key object and replaces the value.
\<close>

definition key_match :: "('k \<Rightarrow> int) \<Rightarrow> 'k key \<Rightarrow> 'k key \<Rightarrow> bool" where
  "key_match h stored probe = (py_hash h stored = py_hash h probe \<and> py_eq stored probe)"

text \<open>\<open>d[k]\<close>; \<open>None\<close> is \<open>KeyError\<close>.\<close>

fun dict_getitem :: "('k \<Rightarrow> int) \<Rightarrow> ('k key \<times> 'v) list \<Rightarrow> 'k key \<Rightarrow> 'v option" where
  "dict_getitem h [] k = None"
| "dict_getitem h ((k', v) # d) k =
     (if key_match h k' k then Some v else dict_getitem h d k)"

text \<open>\<open>d[k] = v\<close>.\<close>

fun dict_setitem :: "('k \<Rightarrow> int) \<Rightarrow> ('k key \<times> 'v) list \<Rightarrow> 'k key \<Rightarrow> 'v \<Rightarrow> ('k key \<times> 'v) list" where
  "dict_setitem h [] k v = [(k, v)]"
| "dict_setitem h ((k', v') # d) k v =
     (if key_match h k' k then (k', v) # d else (k', v') # dict_setitem h d k v)"

subsection \<open>The comparison with the id's own \<open>__eq__\<close>\<close>

text \<open>
  What the \<open>__eq__\<close> of an id answers when it is asked about another object, a bare id
  or a wrapper: true, false, or \<open>NotImplemented\<close>. The method is a parameter \<open>eqm\<close>.
\<close>

datatype eq_answer = AnswerTrue | AnswerFalse | NotImplemented

type_synonym 'k eq_method = "'k \<Rightarrow> 'k key \<Rightarrow> eq_answer"

text \<open>Python's \<open>x == y\<close> on two bare ids: \<open>x.__eq__(y)\<close>, then the reflected
  \<open>y.__eq__(x)\<close>, then identity.\<close>

definition ids_eq_on :: "'k eq_method \<Rightarrow> 'k \<Rightarrow> 'k \<Rightarrow> bool" where
  "ids_eq_on eqm x y =
     (case eqm x (Id y) of
        AnswerTrue \<Rightarrow> True
      | AnswerFalse \<Rightarrow> False
      | NotImplemented \<Rightarrow>
          (case eqm y (Id x) of
             AnswerTrue \<Rightarrow> True
           | AnswerFalse \<Rightarrow> False
           | NotImplemented \<Rightarrow> x = y))"

text \<open>\<open>self.id == other\<close> in \<open>Dependency.__eq__\<close>. Against a wrapper the id is asked
  first; when it answers \<open>NotImplemented\<close> the reflected call is
  \<open>Dependency.__eq__(other, self.id)\<close>, which compares the two ids (its second disjunct
  is false, the id being no \<open>Dependency\<close>).\<close>

fun id_eq_on :: "'k eq_method \<Rightarrow> 'k \<Rightarrow> 'k key \<Rightarrow> bool" where
  "id_eq_on eqm i (Id y) = ids_eq_on eqm i y"
| "id_eq_on eqm i (Dependency y) =
     (case eqm i (Dependency y) of
        AnswerTrue \<Rightarrow> True
      | AnswerFalse \<Rightarrow> False
      | NotImplemented \<Rightarrow> ids_eq_on eqm y i)"

text \<open>\<open>Dependency.__eq__(self, other)\<close>, with \<open>self.id = i\<close>.\<close>

definition Dependency_eq_on :: "'k eq_method \<Rightarrow> 'k \<Rightarrow> 'k key \<Rightarrow> bool" where
  "Dependency_eq_on eqm i other =
     (id_eq_on eqm i other \<or> (isinstance_Dependency other \<and> ids_eq_on eqm i (key_id other)))"

text \<open>Python's \<open>a == b\<close> on keys.\<close>

fun py_eq_on :: "'k eq_method \<Rightarrow> 'k key \<Rightarrow> 'k key \<Rightarrow> bool" where
  "py_eq_on eqm (Id x) other = id_eq_on eqm x other"
| "py_eq_on eqm (Dependency x) other = Dependency_eq_on eqm x other"

text \<open>\<open>a is b\<close>. Every \<open>Dependency(x)\<close> builds a new object, so a wrapper is the same
  object as no bare id and, here, as no other wrapper.\<close>

fun same_object :: "'k key \<Rightarrow> 'k key \<Rightarrow> bool" where
  "same_object (Id x) (Id y) = (x = y)"
| "same_object a b = False"

text \<open>The dict: a stored key answers a probe when the hashes agree and the two are the
  same object or \<open>stored == probe\<close> holds, the stored key on the left.\<close>

definition key_match_on :: "'k eq_method \<Rightarrow> ('k \<Rightarrow> int) \<Rightarrow> 'k key \<Rightarrow> 'k key \<Rightarrow> bool" where
  "key_match_on eqm h stored probe =
     (py_hash h stored = py_hash h probe \<and> (same_object stored probe \<or> py_eq_on eqm stored probe))"

fun dict_getitem_on :: "'k eq_method \<Rightarrow> ('k \<Rightarrow> int) \<Rightarrow> ('k key \<times> 'v) list \<Rightarrow> 'k key \<Rightarrow> 'v option" where
  "dict_getitem_on eqm h [] k = None"
| "dict_getitem_on eqm h ((k', v) # d) k =
     (if key_match_on eqm h k' k then Some v else dict_getitem_on eqm h d k)"

fun dict_setitem_on :: "'k eq_method \<Rightarrow> ('k \<Rightarrow> int) \<Rightarrow> ('k key \<times> 'v) list \<Rightarrow> 'k key \<Rightarrow> 'v
    \<Rightarrow> ('k key \<times> 'v) list" where
  "dict_setitem_on eqm h [] k v = [(k, v)]"
| "dict_setitem_on eqm h ((k', v') # d) k v =
     (if key_match_on eqm h k' k then (k', v) # d else (k', v') # dict_setitem_on eqm h d k v)"

text \<open>The \<open>__eq__\<close> of an id compared structurally: equal ids are equal, and a wrapper is
  left to \<open>Dependency.__eq__\<close>.\<close>

definition structural :: "'k eq_method" where
  "structural x other = (case other of Id y \<Rightarrow> if x = y then AnswerTrue else AnswerFalse
                         | Dependency y \<Rightarrow> NotImplemented)"

section \<open>Exceptions, instances and providers\<close>

text \<open>
  Modelled from the spec: the exception classes of \<open>antidote/exceptions.py\<close>, which the
  code imports and the spec lists with what they carry (the id; the cycle path; the id
  and, as \<open>__cause__\<close>, the original exception; the tag name). They are exceptions in
  Python's sense, derived from \<open>Exception\<close>, and none is a subclass of another. With
  them: Python's \<open>AttributeError\<close> and \<open>ValueError\<close>, any other exception derived from
  \<open>Exception\<close>, and an exception outside that hierarchy (\<open>KeyboardInterrupt\<close>,
  \<open>SystemExit\<close>), which \<open>except Exception\<close> does not catch.
\<close>

datatype 'k exn =
    DependencyNotProvidableError
  | DependencyCycleError "'k key list"
  | DependencyInstantiationError "'k key" "'k exn"
  | DependencyNotFoundError "'k key"
  | AttributeError
  | ValueError string
  | DuplicateTagError string
  | OtherException string
  | NonException string

fun isinstance_Exception :: "'k exn \<Rightarrow> bool" where
  "isinstance_Exception (NonException s) = False"
| "isinstance_Exception e = True"

fun isinstance_DependencyCycleError :: "'k exn \<Rightarrow> bool" where
  "isinstance_DependencyCycleError (DependencyCycleError p) = True"
| "isinstance_DependencyCycleError e = False"

fun isinstance_DependencyNotProvidableError :: "'k exn \<Rightarrow> bool" where
  "isinstance_DependencyNotProvidableError DependencyNotProvidableError = True"
| "isinstance_DependencyNotProvidableError e = False"

text \<open>class \<open>Instance\<close>: what a provider returns. Items are object references: two
  items are the identical object when they are equal.\<close>

record 'v Instance =
  item :: 'v
  singleton :: bool

text \<open>What a call of \<open>container[dependency]\<close> gives its caller.\<close>

datatype ('k, 'v) outcome = Value 'v | Exn "'k exn"

text \<open>
  A provider's \<open>__antidote_provide__\<close> is code the container does not know. It may
  read and change the providers' own state \<open>'s\<close>, call back into the container for
  other dependencies, and finally return an object or raise. Its run on a request is
  a tree: \<open>Return r s\<close> returns \<open>r\<close> (\<open>Some\<close> of an \<open>Instance\<close>, or \<open>None\<close> for the
  Python object \<open>None\<close>) leaving the state \<open>s\<close>; \<open>Raise e s\<close> raises; \<open>Get d k\<close> evaluates
  \<open>container[d]\<close> and continues with \<open>k\<close> applied to what the lookup gave (a value
  or an exception the provider may handle or raise again) and to the state after it.
  A provider reaches the container through lookups only: it does not assign to the
  cache or to the instantiation stack itself.
\<close>

datatype ('k, 'v, 's) action =
    Return "'v Instance option" 's
  | Raise "'k exn" 's
  | Get "'k key" "('k, 'v) outcome \<Rightarrow> 's \<Rightarrow> ('k, 'v, 's) action"

type_synonym ('k, 'v, 's) provider = "'k key \<Rightarrow> 's \<Rightarrow> ('k, 'v, 's) action"

section \<open>\<open>DependencyContainer\<close>\<close>

text \<open>
  The fields of the container. \<open>providers\<close> lists \<open>self.providers.values()\<close>, an
  \<open>OrderedDict\<close>, in registration order. The re-entrant lock is held by the one
  thread this model has, so acquiring it never blocks and changes nothing.
\<close>

record ('k, 'v, 's) container =
  providers :: "('k, 'v, 's) provider list"
  singletons :: "('k key \<times> 'v) list"
  instantiation_stack :: "'k key list"
  provider_state :: 's

type_synonym ('k, 'v, 's) lookup =
  "'k key \<Rightarrow> ('k, 'v, 's) container \<Rightarrow> (('k, 'v) outcome \<times> ('k, 'v, 's) container) option"

text \<open>What a provider's call gave: an object returned or an exception raised.\<close>

datatype ('k, 'v) provided = Returned "'v Instance option" | Raised "'k exn"

text \<open>Running a provider's tree against the container, with \<open>get\<close> for the nested
  lookups. \<open>None\<close>: a nested lookup did not return.\<close>

primrec run :: "('k, 'v, 's) lookup \<Rightarrow> ('k, 'v, 's) action \<Rightarrow> ('k, 'v, 's) container
    \<Rightarrow> (('k, 'v) provided \<times> ('k, 'v, 's) container) option" where
  "run get (Return r s) = (\<lambda>c. Some (Returned r, c\<lparr>provider_state := s\<rparr>))"
| "run get (Raise e s) = (\<lambda>c. Some (Raised e, c\<lparr>provider_state := s\<rparr>))"
| "run get (Get d k) = (\<lambda>c.
     case get d c of
       None \<Rightarrow> None
     | Some (r, c') \<Rightarrow> run get (k r (provider_state c')) c')"

subsection \<open>The instantiation stack\<close>

text \<open>
  Modelled from the spec: \<open>InstantiationStack.instantiating\<close> (module
  \<open>antidote/container/stack.py\<close>), the context manager \<open>__getitem__\<close> enters. The spec:
  push the request's id onto the instantiation stack; if the id is already present, fail
  immediately with \<open>DependencyCycleError\<close> carrying the full cycle path; pop the entry
  always, even on error. Presence is Python membership (hash and \<open>==\<close>); the path is
  the stack followed by the id that re-enters.
\<close>

text \<open>Modelled from the spec: whether the id is already present on the stack.\<close>

definition on_stack :: "('k \<Rightarrow> int) \<Rightarrow> 'k key list \<Rightarrow> 'k key \<Rightarrow> bool" where
  "on_stack h st d = list_ex (\<lambda>k. key_match h k d) st"

text \<open>Modelled from the spec: entering \<open>instantiating(dependency)\<close>, which fails with
  the cycle path or pushes the id.\<close>

definition instantiating_enter :: "('k \<Rightarrow> int) \<Rightarrow> 'k key list \<Rightarrow> 'k key \<Rightarrow> 'k exn + 'k key list" where
  "instantiating_enter h st d =
     (if on_stack h st d then Inl (DependencyCycleError (st @ [d])) else Inr (st @ [d]))"

text \<open>Modelled from the spec: leaving \<open>instantiating(dependency)\<close>, normally or by an
  exception, which pops the entry.\<close>

definition instantiating_exit :: "'k key list \<Rightarrow> 'k key list" where
  "instantiating_exit st = butlast st"

subsection \<open>\<open>DependencyContainer.__getitem__\<close>\<close>

text \<open>The request handed to a provider:
  \<open>dependency if isinstance(dependency, Dependency) else Dependency(dependency)\<close>.\<close>

definition to_request :: "'k key \<Rightarrow> 'k key" where
  "to_request d = (if isinstance_Dependency d then d else Dependency (key_id d))"

text \<open>How the \<open>for\<close> loop over the providers ends: by \<open>return instance.item\<close>, by an
  exception that leaves the loop, or by running out of providers.\<close>

datatype ('k, 'v) loop_end = Found 'v | Failed "'k exn" | Exhausted

text \<open>
  The loop, on the providers still to try. \<open>except DependencyNotProvidableError: pass\<close>
  goes on to the next provider. In the \<open>else\<close> branch, \<open>instance.singleton\<close> on the
  object \<open>None\<close> raises \<open>AttributeError\<close>.
\<close>

fun try_providers :: "('k, 'v, 's) lookup \<Rightarrow> ('k \<Rightarrow> int) \<Rightarrow> ('k, 'v, 's) provider list \<Rightarrow> 'k key
    \<Rightarrow> ('k, 'v, 's) container \<Rightarrow> (('k, 'v) loop_end \<times> ('k, 'v, 's) container) option" where
  "try_providers get h [] d c = Some (Exhausted, c)"
| "try_providers get h (p # ps) d c =
     (case run get (p (to_request d) (provider_state c)) c of
        None \<Rightarrow> None
      | Some (Raised e, c') \<Rightarrow>
          if isinstance_DependencyNotProvidableError e then try_providers get h ps d c'
          else Some (Failed e, c')
      | Some (Returned None, c') \<Rightarrow> Some (Failed AttributeError, c')
      | Some (Returned (Some i), c') \<Rightarrow>
          if singleton i
          then Some (Found (item i), c'\<lparr>singletons := dict_setitem h (singletons c') d (item i)\<rparr>)
          else Some (Found (item i), c'))"

text \<open>The handlers around the \<open>with\<close> block and the last line of \<open>__getitem__\<close>:
  \<open>except DependencyCycleError: raise\<close>, then
  \<open>except Exception as e: raise DependencyInstantiationError(dependency) from e\<close>;
  after the block, \<open>raise DependencyNotFoundError(dependency)\<close>.\<close>

fun handle :: "'k key \<Rightarrow> ('k, 'v) loop_end \<Rightarrow> ('k, 'v) outcome" where
  "handle d (Found v) = Value v"
| "handle d (Failed e) =
     (if isinstance_DependencyCycleError e then Exn e
      else if isinstance_Exception e then Exn (DependencyInstantiationError d e)
      else Exn e)"
| "handle d Exhausted = Exn (DependencyNotFoundError d)"

text \<open>Leaving the \<open>with\<close> block.\<close>

definition pop :: "('k, 'v, 's) container \<Rightarrow> ('k, 'v, 's) container" where
  "pop c = c\<lparr>instantiation_stack := instantiating_exit (instantiation_stack c)\<rparr>"

text \<open>The second \<open>try\<close> of \<open>__getitem__\<close>: the body run with the lock held and the
  dependency on the instantiation stack. It looks the cache up again before it asks
  the providers.\<close>

definition locked_getitem :: "('k, 'v, 's) lookup \<Rightarrow> ('k \<Rightarrow> int) \<Rightarrow> ('k, 'v, 's) lookup" where
  "locked_getitem get h d c =
     (case instantiating_enter h (instantiation_stack c) d of
        Inl e \<Rightarrow> Some (handle d (Failed e), c)
      | Inr st \<Rightarrow>
          (let c1 = c\<lparr>instantiation_stack := st\<rparr> in
           case dict_getitem h (singletons c1) d of
             Some v \<Rightarrow> Some (Value v, pop c1)
           | None \<Rightarrow>
               (case try_providers get h (providers c1) d c1 of
                  None \<Rightarrow> None
                | Some (r, c2) \<Rightarrow> Some (handle d r, pop c2))))"

text \<open>\<open>__getitem__\<close>, with \<open>get\<close> for the lookups its providers make.\<close>

definition getitem_body :: "('k, 'v, 's) lookup \<Rightarrow> ('k \<Rightarrow> int) \<Rightarrow> ('k, 'v, 's) lookup" where
  "getitem_body get h d c =
     (case dict_getitem h (singletons c) d of
        Some v \<Rightarrow> Some (Value v, c)
      | None \<Rightarrow> locked_getitem get h d c)"

text \<open>
  \<open>getitem n\<close> is \<open>__getitem__\<close> with lookups nested at most \<open>n\<close> deep below it. Providers
  that ask for ever new dependencies make the Python recurse without end; here the
  lookup that would need more depth gives \<open>None\<close>.
\<close>

primrec getitem :: "nat \<Rightarrow> ('k \<Rightarrow> int) \<Rightarrow> ('k, 'v, 's) lookup" where
  "getitem 0 h = getitem_body (\<lambda>d c. None) h"
| "getitem (Suc n) h = getitem_body (getitem n h) h"

text \<open>\<open>__setitem__\<close>.\<close>

definition setitem :: "('k \<Rightarrow> int) \<Rightarrow> 'k key \<Rightarrow> 'v \<Rightarrow> ('k, 'v, 's) container \<Rightarrow> ('k, 'v, 's) container" where
  "setitem h k v c = c\<lparr>singletons := dict_setitem h (singletons c) k v\<rparr>"

text \<open>\<open>__setitem__\<close>, and the first \<open>try\<close> of \<open>__getitem__\<close>
  (\<open>return self._singletons[dependency]\<close>; \<open>None\<close> is the \<open>KeyError\<close> it catches), with
  the id's own \<open>__eq__\<close>.\<close>

definition setitem_on :: "'k eq_method \<Rightarrow> ('k \<Rightarrow> int) \<Rightarrow> 'k key \<Rightarrow> 'v \<Rightarrow> ('k, 'v, 's) container
    \<Rightarrow> ('k, 'v, 's) container" where
  "setitem_on eqm h k v c = c\<lparr>singletons := dict_setitem_on eqm h (singletons c) k v\<rparr>"

definition first_try_on :: "'k eq_method \<Rightarrow> ('k \<Rightarrow> int) \<Rightarrow> 'k key \<Rightarrow> ('k, 'v, 's) container \<Rightarrow> 'v option" where
  "first_try_on eqm h d c = dict_getitem_on eqm h (singletons c) d"

section \<open>\<open>ProxyContainer\<close>: \<open>antidote/container/proxy.py\<close>\<close>






section \<open>\<open>TagProvider\<close>: \<open>antidote/providers/tag/provider.py\<close>\<close>

text \<open>
  Modelled from the spec: the classes \<open>Tag\<close> and \<open>Tagged\<close> of
  \<open>antidote/providers/tag/dependency.py\<close>. A \<open>Tag\<close> is a named marker with optional
  attributes; \<open>Tag(s)\<close> for a string \<open>s\<close> has the name \<open>s\<close> and no attribute.
\<close>

record 'a Tag =
  name :: string
  attrs :: "(string \<times> 'a) list"

text \<open>Modelled from the spec: what \<open>provide\<close> is given, a \<open>Tagged\<close> request with its
  \<open>name\<close> or any other dependency.\<close>

datatype 'd request = Tagged string | NotTagged 'd

text \<open>An element of the iterable \<open>tags\<close> given to \<open>register\<close>: a string, a \<open>Tag\<close>, or an
  object that is neither.\<close>

datatype 'a tag_arg = Str string | TagObj "'a Tag" | OtherObj

record ('d, 'a) TaggedDependency =
  dependency :: 'd
  tag :: "'a Tag"

text \<open>\<open>TaggedDependencies\<close>: the lists \<open>_dependencies\<close>, \<open>_tags\<close> and \<open>_instances\<close>. They
  are new list objects of the collection; the container and the lock it also holds
  serve \<open>instances()\<close> only.\<close>

record ('d, 'a, 'i) TaggedDependencies =
  dependencies :: "'d list"
  tags :: "'a Tag list"
  instances :: "'i list"

text \<open>\<open>TaggedDependencies.__init__\<close>: the loop appends each pair to the two lists.\<close>

definition TaggedDependencies_init :: "('d, 'a) TaggedDependency list \<Rightarrow> ('d, 'a, 'i) TaggedDependencies" where
  "TaggedDependencies_init tagged_dependencies =
     fold (\<lambda>td c. c\<lparr>dependencies := dependencies c @ [dependency td], tags := tags c @ [tag td]\<rparr>)
       tagged_dependencies \<lparr>dependencies = [], tags = [], instances = []\<rparr>"

text \<open>The provider's field \<open>_dependency_to_tag_by_tag_name\<close>: a dict of dicts, both in
  insertion order.\<close>

type_synonym ('d, 'a) tag_registry = "(string \<times> ('d \<times> 'a Tag) list) list"

text \<open>\<open>TagProvider.provide\<close>; \<open>None\<close> is the Python \<open>None\<close>.\<close>

fun provide :: "('d, 'a) tag_registry \<Rightarrow> 'd request
    \<Rightarrow> ('d, 'a, 'i) TaggedDependencies Instance option" where
  "provide reg (Tagged nm) =
     (let dependency_to_tag = (case map_of reg nm of Some m \<Rightarrow> m | None \<Rightarrow> [])
      in Some \<lparr>item = TaggedDependencies_init
                         (map (\<lambda>(d, t). \<lparr>dependency = d, tag = t\<rparr>) dependency_to_tag),
               singleton = False\<rparr>)"
| "provide reg (NotTagged x) = None"

text \<open>\<open>TagProvider.register\<close>: the registry after the call and the exception raised, if
  any. Tags registered before the one that raises stay registered.\<close>

fun register :: "('d, 'a) tag_registry \<Rightarrow> 'd \<Rightarrow> 'a tag_arg list
    \<Rightarrow> 'd exn option \<times> ('d, 'a) tag_registry" where
  "register reg d [] = (None, reg)"
| "register reg d (OtherObj # ts) = (Some (ValueError ''Expecting tag of type Tag''), reg)"
| "register reg d (t # ts) =
     (let tg = (case t of Str s \<Rightarrow> \<lparr>name = s, attrs = []\<rparr> | TagObj x \<Rightarrow> x)
      in case map_of reg (name tg) of
           None \<Rightarrow> register (AList.update (name tg) [(d, tg)] reg) d ts
         | Some m \<Rightarrow>
             (case map_of m d of
                None \<Rightarrow> register (AList.update (name tg) (AList.update d tg m) reg) d ts
              | Some x \<Rightarrow> (Some (DuplicateTagError (name tg)), reg)))"

text \<open>The name of a tag argument, and whether a name is registered for a dependency.\<close>

fun tag_arg_name :: "'a tag_arg \<Rightarrow> string option" where
  "tag_arg_name (Str s) = Some s"
| "tag_arg_name (TagObj x) = Some (name x)"
| "tag_arg_name OtherObj = None"

definition registered :: "('d, 'a) tag_registry \<Rightarrow> string \<Rightarrow> 'd \<Rightarrow> bool" where
  "registered reg nm d = (case map_of reg nm of None \<Rightarrow> False | Some m \<Rightarrow> map_of m d \<noteq> None)"

section \<open>\<open>LazyMethodCall\<close>: \<open>antidote/providers/lazy.py\<close>\<close>

text \<open>
  The descriptor installs an attribute on the owner class and is compared by identity,
  so objects live in a store and are named by their addresses. A class has its
  \<open>__dict__\<close> and the rest of its \<open>__mro__\<close>; its metaclass is \<open>type\<close>.
\<close>

datatype pyobj = LazyMethodCallRef nat | LazyMethodCallDependencyRef nat | PlainObj nat

record 'a LazyMethodCall =
  lmc_method_name :: string
  lmc_args :: 'a
  lmc_singleton :: bool
  lmc_key :: "string option"

record LazyMethodCallDependency =
  lazy_method_call :: nat
  owner :: nat

record 'a store =
  class_dict :: "nat \<Rightarrow> (string \<times> pyobj) list"
  class_bases_mro :: "nat \<Rightarrow> nat list"
  lazy_method_calls :: "nat \<Rightarrow> 'a LazyMethodCall"
  lazy_method_call_dependencies :: "nat \<Rightarrow> LazyMethodCallDependency option"
  next_address :: nat

text \<open>What \<open>__get__\<close> gives: an object, the result of the bound method's call, or
  \<open>AttributeError\<close>.\<close>

datatype 'r got = Obj pyobj | Called 'r | RaisedAttributeError

text \<open>\<open>LazyMethodCallDependency(self, owner)\<close>: a new object at an address not used
  before.\<close>

definition new_LazyMethodCallDependency :: "nat \<Rightarrow> nat \<Rightarrow> 'a store \<Rightarrow> pyobj \<times> 'a store" where
  "new_LazyMethodCallDependency self ownr st =
     (LazyMethodCallDependencyRef (next_address st),
      st\<lparr>lazy_method_call_dependencies :=
            (lazy_method_call_dependencies st)
              (next_address st := Some \<lparr>lazy_method_call = self, owner = ownr\<rparr>),
          next_address := Suc (next_address st)\<rparr>)"

text \<open>\<open>_get_attribute_name\<close>: the first name of \<open>owner.__dict__\<close> bound to the
  descriptor itself; the Python \<open>None\<close> when the loop finds none.\<close>

fun find_self :: "nat \<Rightarrow> (string \<times> pyobj) list \<Rightarrow> string option" where
  "find_self self [] = None"
| "find_self self ((k, v) # kvs) =
     (if v = LazyMethodCallRef self then Some k else find_self self kvs)"

definition get_attribute_name :: "nat \<Rightarrow> nat \<Rightarrow> 'a store \<Rightarrow> string option" where
  "get_attribute_name self ownr st = find_self self (class_dict st ownr)"

text \<open>\<open>"{}_dependency".format(x)\<close>.\<close>

fun format_dependency :: "string option \<Rightarrow> string" where
  "format_dependency (Some k) = k @ ''_dependency''"
| "format_dependency None = ''None_dependency''"

text \<open>\<open>setattr(owner, key, value)\<close> on a class, and the lookup of \<open>getattr(owner, key)\<close>
  along \<open>owner.__mro__\<close>.\<close>

definition setattr :: "nat \<Rightarrow> string \<Rightarrow> pyobj \<Rightarrow> 'a store \<Rightarrow> 'a store" where
  "setattr ownr k v st = st\<lparr>class_dict := (class_dict st)(ownr := AList.update k v (class_dict st ownr))\<rparr>"

fun mro_lookup :: "(nat \<Rightarrow> (string \<times> pyobj) list) \<Rightarrow> nat list \<Rightarrow> string \<Rightarrow> pyobj option" where
  "mro_lookup cd [] k = None"
| "mro_lookup cd (c # cs) k =
     (case map_of (cd c) k of Some v \<Rightarrow> Some v | None \<Rightarrow> mro_lookup cd cs k)"

text \<open>
  \<open>LazyMethodCall.__get__(self, instance, owner)\<close>. \<open>getattr\<close> on the class calls the
  \<open>__get__\<close> of a \<open>LazyMethodCall\<close> it finds under the key, so the function is recursive,
  at most \<open>n\<close> deep; \<open>None\<close> when that is not enough. \<open>invoke\<close> stands for
  \<open>getattr(instance, self._method_name)(*self._args, **self._kwargs)\<close>.
\<close>

fun LazyMethodCall_get :: "nat \<Rightarrow> ('i \<Rightarrow> string \<Rightarrow> 'a \<Rightarrow> 'a store \<Rightarrow> 'r got \<times> 'a store)
    \<Rightarrow> nat \<Rightarrow> 'i option \<Rightarrow> nat \<Rightarrow> 'a store \<Rightarrow> ('r got \<times> 'a store) option" where
  "LazyMethodCall_get n invoke self (Some inst) ownr st =
     Some (invoke inst (lmc_method_name (lazy_method_calls st self))
             (lmc_args (lazy_method_calls st self)) st)"
| "LazyMethodCall_get 0 invoke self None ownr st = None"
| "LazyMethodCall_get (Suc n) invoke self None ownr st =
     (if lmc_singleton (lazy_method_calls st self) then
        (let (k, st2) =
           (case lmc_key (lazy_method_calls st self) of
              None \<Rightarrow>
                (let k = format_dependency (get_attribute_name self ownr st);
                     st1 = st\<lparr>lazy_method_calls := (lazy_method_calls st)
                               (self := (lazy_method_calls st self)\<lparr>lmc_key := Some k\<rparr>)\<rparr>;
                     (m, st1') = new_LazyMethodCallDependency self ownr st1
                 in (k, setattr ownr k m st1'))
            | Some k \<Rightarrow> (k, st))
         in case mro_lookup (class_dict st2) (ownr # class_bases_mro st2 ownr) k of
              None \<Rightarrow> Some (RaisedAttributeError, st2)
            | Some (LazyMethodCallRef b) \<Rightarrow> LazyMethodCall_get n invoke b None ownr st2
            | Some v \<Rightarrow> Some (Obj v, st2))
      else (case new_LazyMethodCallDependency self ownr st of (m, st') \<Rightarrow> Some (Obj m, st')))"

section \<open>Notions used by the theorems\<close>

text \<open>The container with \<open>d\<close> on top of its instantiation stack: the state in which
  the providers run during the lookup of \<open>d\<close>.\<close>

definition push :: "'k key \<Rightarrow> ('k, 'v, 's) container \<Rightarrow> ('k, 'v, 's) container" where
  "push d c = c\<lparr>instantiation_stack := instantiation_stack c @ [d]\<rparr>"

text \<open>A provider declines a request when it raises \<open>DependencyNotProvidableError\<close> at
  once, whatever its state, and leaves the state alone.\<close>

definition declines :: "('k, 'v, 's) provider \<Rightarrow> 'k key \<Rightarrow> bool" where
  "declines q r = (\<forall>s. q r s = Raise DependencyNotProvidableError s)"

text \<open>
  What a lookup leaves alone: the instantiation stack, the providers, and the absence
  from the cache of every key that is on the stack.
\<close>

definition untouched :: "('k \<Rightarrow> int) \<Rightarrow> ('k, 'v, 's) container \<Rightarrow> ('k, 'v, 's) container \<Rightarrow> bool" where
  "untouched h c c' =
     (instantiation_stack c' = instantiation_stack c \<and> providers c' = providers c \<and>
      (\<forall>k. on_stack h (instantiation_stack c) k \<longrightarrow> dict_getitem h (singletons c) k = None
           \<longrightarrow> dict_getitem h (singletons c') k = None))"

definition keeps :: "('k \<Rightarrow> int) \<Rightarrow> ('k, 'v, 's) lookup \<Rightarrow> bool" where
  "keeps h get = (\<forall>d c r c'. get d c = Some (r, c') \<longrightarrow> untouched h c c')"

text \<open>A lookup that returns whatever another one returns, and perhaps more.\<close>

definition extends :: "('k, 'v, 's) lookup \<Rightarrow> ('k, 'v, 's) lookup \<Rightarrow> bool" where
  "extends get get' = (\<forall>d c x. get d c = Some x \<longrightarrow> get' d c = Some x)"

text \<open>The \<open>Tag\<close> that \<open>register\<close> makes of an element of \<open>tags\<close>, and the registry after it
  has added that tag for a dependency that does not have it.\<close>

definition as_Tag :: "'a tag_arg \<Rightarrow> 'a Tag" where
  "as_Tag t = (case t of Str s \<Rightarrow> \<lparr>name = s, attrs = []\<rparr> | TagObj x \<Rightarrow> x
               | OtherObj \<Rightarrow> \<lparr>name = [], attrs = []\<rparr>)"

definition with_tag :: "('d, 'a) tag_registry \<Rightarrow> 'd \<Rightarrow> 'a Tag \<Rightarrow> ('d, 'a) tag_registry" where
  "with_tag reg d tg =
     (case map_of reg (name tg) of
        None \<Rightarrow> AList.update (name tg) [(d, tg)] reg
      | Some m \<Rightarrow> AList.update (name tg) (AList.update d tg m) reg)"

text \<open>The store after the first class-level access of the singleton descriptor \<open>self\<close>
  through the class \<open>ownr\<close>: the key is set, the marker is built and installed.\<close>

definition marked :: "nat \<Rightarrow> nat \<Rightarrow> 'a store \<Rightarrow> 'a store" where
  "marked self ownr st =
     setattr ownr (format_dependency (get_attribute_name self ownr st))
       (LazyMethodCallDependencyRef (next_address st))
       (snd (new_LazyMethodCallDependency self ownr
          (st\<lparr>lazy_method_calls := (lazy_method_calls st)
                 (self := (lazy_method_calls st self)
                    \<lparr>lmc_key := Some (format_dependency (get_attribute_name self ownr st))\<rparr>)\<rparr>)))"

subsection \<open>Providers and containers of the examples\<close>

text \<open>String ids hashed by their length; objects are numbers; the providers' state is
  the number of the next object to build.\<close>

definition len_hash :: "string \<Rightarrow> int" where
  "len_hash s = int (length s)"

text \<open>A provider that declines every request, one that returns the Python \<open>None\<close>, one
  that raises a given exception, and one that builds a new object on every call.\<close>

definition declining :: "(string, nat, nat) provider" where
  "declining r s = Raise DependencyNotProvidableError s"

definition returning_None :: "(string, nat, nat) provider" where
  "returning_None r s = Return None s"

definition raising :: "string exn \<Rightarrow> (string, nat, nat) provider" where
  "raising e r s = Raise e s"

definition building :: "bool \<Rightarrow> (string, nat, nat) provider" where
  "building sgl r s = Return (Some \<lparr>item = s, singleton = sgl\<rparr>) (Suc s)"

text \<open>A provider for \<open>a\<close> and \<open>b\<close>: \<open>a\<close> is built from \<open>container['b']\<close> and \<open>b\<close> from
  \<open>container['a']\<close>; an exception of the nested lookup is not handled.\<close>

definition pass_on :: "(string, nat) outcome \<Rightarrow> nat \<Rightarrow> (string, nat, nat) action" where
  "pass_on r s = (case r of Exn e \<Rightarrow> Raise e s
                  | Value v \<Rightarrow> Return (Some \<lparr>item = v, singleton = False\<rparr>) s)"

definition circular :: "(string, nat, nat) provider" where
  "circular r s =
     (if key_id r = ''a'' then Get (Id ''b'') pass_on
      else if key_id r = ''b'' then Get (Id ''a'') pass_on
      else Raise DependencyNotProvidableError s)"

definition container_of :: "(string, nat, nat) provider list \<Rightarrow> (string, nat, nat) container" where
  "container_of ps = \<lparr>providers = ps, singletons = [], instantiation_stack = [], provider_state = 0\<rparr>"

text \<open>A store with two classes: class 0 defines a \<open>LazyMethodCall\<close> under the name
  \<open>conf\<close>, class 1 is a subclass of class 0 that defines nothing itself (the entries
  Python adds to every \<open>__dict__\<close>, none of them the descriptor, are left out). No
  marker has been built; the next new object gets the address 7.\<close>

definition example_store :: "bool \<Rightarrow> unit store" where
  "example_store sgl =
     \<lparr>class_dict = (\<lambda>c. if c = 0 then [(''conf'', LazyMethodCallRef 0)] else []),
      class_bases_mro = (\<lambda>c. if c = 1 then [0] else []),
      lazy_method_calls = (\<lambda>a. \<lparr>lmc_method_name = ''get'', lmc_args = (), lmc_singleton = sgl,
                                   lmc_key = None\<rparr>),
      lazy_method_call_dependencies = (\<lambda>a. None),
      next_address = 7\<rparr>"






section \<open>Keys and the cache\<close>

lemma py_eq_iff: "py_eq a b = (key_id a = key_id b)"
  by (cases a; cases b) (auto simp: Dependency_eq_def)

lemma py_hash_key_id: "py_hash h a = h (key_id a)"
  by (cases a) (simp_all add: Dependency_hash_def)

lemma key_match_iff: "key_match h a b = (key_id a = key_id b)"
  by (auto simp: key_match_def py_eq_iff py_hash_key_id)

lemma on_stack_iff: "on_stack h st d = (\<exists>k\<in>set st. key_id k = key_id d)"
  by (simp add: on_stack_def list_ex_iff key_match_iff)

lemma dict_getitem_cong: "key_match h k k' \<Longrightarrow> dict_getitem h m k = dict_getitem h m k'"
  by (induction m) (auto simp: key_match_iff)

lemma dict_getitem_setitem: "key_match h k k' \<Longrightarrow> dict_getitem h (dict_setitem h m k v) k' = Some v"
  by (induction m) (auto simp: key_match_iff)

lemma dict_getitem_setitem_other:
  "\<not> key_match h k k' \<Longrightarrow> dict_getitem h (dict_setitem h m k v) k' = dict_getitem h m k'"
  by (induction m) (auto simp: key_match_iff)

section \<open>What a lookup leaves alone\<close>

lemma untouched_refl: "untouched h c c"
  by (simp add: untouched_def)

lemma untouched_trans: "untouched h c c1 \<Longrightarrow> untouched h c1 c2 \<Longrightarrow> untouched h c c2"
  by (simp add: untouched_def)

lemma untouched_provider_state: "untouched h c (c\<lparr>provider_state := s\<rparr>)"
  by (simp add: untouched_def)

lemma run_untouched:
  "keeps h get \<Longrightarrow> run get a c = Some (r, c') \<Longrightarrow> untouched h c c'"
proof (induction a arbitrary: c)
  case (Return x s)
  then show ?case by (auto simp: untouched_provider_state)
next
  case (Raise e s)
  then show ?case by (auto simp: untouched_provider_state)
next
  case (Get d k)
  from Get.prems(2) obtain r1 c1 where g: "get d c = Some (r1, c1)"
    and rest: "run get (k r1 (provider_state c1)) c1 = Some (r, c')"
    by (auto split: option.splits)
  from g Get.prems(1) have "untouched h c c1" by (auto simp: keeps_def)
  moreover have "untouched h c1 c'"
    by (rule Get.IH[OF rangeI rangeI Get.prems(1) rest])
  ultimately show ?case by (rule untouched_trans)
qed

lemma try_providers_untouched:
  "keeps h get \<Longrightarrow> try_providers get h ps d c = Some (r, c') \<Longrightarrow>
   instantiation_stack c' = instantiation_stack c \<and> providers c' = providers c \<and>
   (\<forall>k. on_stack h (instantiation_stack c) k \<longrightarrow> \<not> key_match h d k \<longrightarrow>
        dict_getitem h (singletons c) k = None \<longrightarrow> dict_getitem h (singletons c') k = None)"
proof (induction ps arbitrary: c)
  case Nil
  then show ?case by simp
next
  case (Cons p ps)
  from Cons.prems(2) obtain r1 c1 where
    r: "run get (p (to_request d) (provider_state c)) c = Some (r1, c1)"
    by (auto split: option.splits)
  have u: "untouched h c c1" by (rule run_untouched[OF Cons.prems(1) r])
  show ?case
  proof (cases r1)
    case (Returned x)
    with Cons.prems(2) r u show ?thesis
      by (auto simp: untouched_def dict_getitem_setitem_other split: option.splits if_splits)
  next
    case (Raised e)
    show ?thesis
    proof (cases "isinstance_DependencyNotProvidableError e")
      case True
      with Cons.prems(2) r Raised have "try_providers get h ps d c1 = Some (r, c')" by simp
      from Cons.IH[OF Cons.prems(1) this] u show ?thesis by (auto simp: untouched_def)
    next
      case False
      with Cons.prems(2) r Raised u show ?thesis by (auto simp: untouched_def)
    qed
  qed
qed

lemma pop_push: "pop (push d c) = c"
  by (simp add: pop_def push_def instantiating_exit_def)

lemma getitem_body_miss:
  assumes "dict_getitem h (singletons c) d = None" and "\<not> on_stack h (instantiation_stack c) d"
  shows "getitem_body get h d c =
    (case try_providers get h (providers c) d (push d c) of
       None \<Rightarrow> None
     | Some (r, c2) \<Rightarrow> Some (handle d r, pop c2))"
  using assms
  by (simp add: getitem_body_def locked_getitem_def instantiating_enter_def push_def)

lemma keeps_getitem_body: "keeps h get \<Longrightarrow> keeps h (getitem_body get h)"
  unfolding keeps_def
proof (intro allI impI)
  fix d c r c'
  assume k: "\<forall>d c r c'. get d c = Some (r, c') \<longrightarrow> untouched h c c'"
    and g: "getitem_body get h d c = Some (r, c')"
  then have k': "keeps h get" by (simp add: keeps_def)
  show "untouched h c c'"
  proof (cases "dict_getitem h (singletons c) d")
    case (Some v)
    with g show ?thesis by (simp add: getitem_body_def untouched_refl)
  next
    case None
    show ?thesis
    proof (cases "on_stack h (instantiation_stack c) d")
      case True
      with g None show ?thesis
        by (simp add: getitem_body_def locked_getitem_def instantiating_enter_def untouched_refl)
    next
      case False
      from g obtain r2 c2 where
        t: "try_providers get h (providers c) d (push d c) = Some (r2, c2)" and c': "c' = pop c2"
        by (auto simp: getitem_body_miss[OF None False] split: option.splits)
      from try_providers_untouched[OF k' t] False c' show ?thesis
        by (auto simp: untouched_def pop_def push_def instantiating_exit_def on_stack_iff key_match_iff)
    qed
  qed
qed

lemma keeps_none: "keeps h (\<lambda>d c. None)"
  by (simp add: keeps_def)

lemma keeps_getitem: "keeps h (getitem n h)"
  by (induction n) (simp_all add: keeps_getitem_body keeps_none)

lemma getitem_untouched: "getitem n h d c = Some (r, c') \<Longrightarrow> untouched h c c'"
  using keeps_getitem[of h n] by (auto simp: keeps_def)

section \<open>More depth changes no result\<close>

lemma run_extends: "extends get get' \<Longrightarrow> run get a c = Some x \<Longrightarrow> run get' a c = Some x"
proof (induction a arbitrary: c)
  case (Get d k)
  from Get.prems(2) obtain r1 c1 where g: "get d c = Some (r1, c1)"
    and rest: "run get (k r1 (provider_state c1)) c1 = Some x"
    by (auto split: option.splits)
  from g Get.prems(1) have g': "get' d c = Some (r1, c1)" by (auto simp: extends_def)
  have "run get' (k r1 (provider_state c1)) c1 = Some x"
    by (rule Get.IH[OF rangeI rangeI Get.prems(1) rest])
  with g' show ?case by simp
qed simp_all

lemma try_providers_extends:
  "extends get get' \<Longrightarrow> try_providers get h ps d c = Some x \<Longrightarrow> try_providers get' h ps d c = Some x"
proof (induction ps arbitrary: c)
  case (Cons p ps)
  from Cons.prems(2) obtain r1 c1 where
    r: "run get (p (to_request d) (provider_state c)) c = Some (r1, c1)"
    by (auto split: option.splits)
  have r': "run get' (p (to_request d) (provider_state c)) c = Some (r1, c1)"
    by (rule run_extends[OF Cons.prems(1) r])
  show ?case
  proof (cases r1)
    case (Returned y)
    with Cons.prems(2) r r' show ?thesis by (auto split: option.splits if_splits)
  next
    case (Raised e)
    with Cons.prems(2) r r' Cons.IH[OF Cons.prems(1)] show ?thesis
      by (auto split: if_splits)
  qed
qed simp

lemma getitem_body_extends: "extends get get' \<Longrightarrow> extends (getitem_body get h) (getitem_body get' h)"
  unfolding extends_def[of "getitem_body get h"]
proof (intro allI impI)
  fix d c x
  assume e: "extends get get'" and g: "getitem_body get h d c = Some x"
  show "getitem_body get' h d c = Some x"
  proof (cases "dict_getitem h (singletons c) d")
    case (Some v)
    with g show ?thesis by (simp add: getitem_body_def)
  next
    case None
    show ?thesis
    proof (cases "on_stack h (instantiation_stack c) d")
      case True
      with g None show ?thesis
        by (simp add: getitem_body_def locked_getitem_def instantiating_enter_def)
    next
      case False
      from g obtain y where t: "try_providers get h (providers c) d (push d c) = Some y"
        by (auto simp: getitem_body_miss[OF None False] split: option.splits)
      from try_providers_extends[OF e t] g t show ?thesis
        by (simp add: getitem_body_miss[OF None False])
    qed
  qed
qed

lemma getitem_Suc_extends: "extends (getitem n h) (getitem (Suc n) h)"
proof (induction n)
  case 0
  have "extends (\<lambda>d c. None) (getitem 0 h)" by (simp add: extends_def)
  from getitem_body_extends[OF this] show ?case by simp
next
  case (Suc n)
  from getitem_body_extends[OF Suc] show ?case by simp
qed

lemma getitem_deeper: "getitem n h d c = Some x \<Longrightarrow> getitem (n + m) h d c = Some x"
proof (induction m)
  case (Suc m)
  then have "getitem (n + m) h d c = Some x" by simp
  with getitem_Suc_extends[of "n + m" h] have "getitem (Suc (n + m)) h d c = Some x"
    unfolding extends_def by blast
  then show ?case by simp
qed simp

section \<open>The steps of a lookup\<close>

lemma getitem_hit: "dict_getitem h (singletons c) d = Some v \<Longrightarrow> getitem n h d c = Some (Value v, c)"
  by (cases n) (simp_all add: getitem_body_def)

lemma locked_getitem_hit:
  assumes "\<not> on_stack h (instantiation_stack c) d" and "dict_getitem h (singletons c) d = Some v"
  shows "locked_getitem get h d c = Some (Value v, c)"
  using assms pop_push[of d c]
  by (simp add: locked_getitem_def instantiating_enter_def push_def)

lemma getitem_cycle:
  assumes "dict_getitem h (singletons c) d = None" and "on_stack h (instantiation_stack c) d"
  shows "getitem n h d c = Some (Exn (DependencyCycleError (instantiation_stack c @ [d])), c)"
  using assms
  by (cases n) (simp_all add: getitem_body_def locked_getitem_def instantiating_enter_def)

lemma try_providers_declines:
  "\<forall>q\<in>set ps1. declines q (to_request d) \<Longrightarrow>
   try_providers get h (ps1 @ ps) d c = try_providers get h ps d c"
  by (induction ps1) (simp_all add: declines_def)

lemma try_providers_first:
  assumes "run get (p (to_request d) (provider_state c)) c = Some (r, c')"
    and "r \<noteq> Raised DependencyNotProvidableError"
  shows "try_providers get h (p # ps) d c = try_providers get h [p] d c"
proof (cases r)
  case (Returned x)
  with assms show ?thesis by (cases x) simp_all
next
  case (Raised e)
  with assms have "\<not> isinstance_DependencyNotProvidableError e" by (cases e) simp_all
  with assms Raised show ?thesis by simp
qed

lemma getitem_reaches:
  assumes miss: "dict_getitem h (singletons c) d = None"
    and fresh: "\<not> on_stack h (instantiation_stack c) d"
    and ps: "providers c = ps1 @ p # ps2"
    and decl: "\<forall>q\<in>set ps1. declines q (to_request d)"
  shows "getitem (Suc n) h d c =
    (case try_providers (getitem n h) h (p # ps2) d (push d c) of
       None \<Rightarrow> None
     | Some (r, c2) \<Rightarrow> Some (handle d r, pop c2))"
  using getitem_body_miss[OF miss fresh, of "getitem n h"] try_providers_declines[OF decl]
  by (simp add: ps)

lemma getitem_raised:
  assumes miss: "dict_getitem h (singletons c) d = None"
    and fresh: "\<not> on_stack h (instantiation_stack c) d"
    and ps: "providers c = ps1 @ p # ps2"
    and decl: "\<forall>q\<in>set ps1. declines q (to_request d)"
    and r: "run (getitem n h) (p (to_request d) (provider_state c)) (push d c) = Some (Raised e, c')"
    and e: "\<not> isinstance_DependencyNotProvidableError e"
  shows "getitem (Suc n) h d c = Some (handle d (Failed e), pop c')"
proof -
  have "provider_state (push d c) = provider_state c" by (simp add: push_def)
  with r e have "try_providers (getitem n h) h (p # ps2) d (push d c) = Some (Failed e, c')"
    by simp
  then show ?thesis unfolding getitem_reaches[OF miss fresh ps decl] by simp
qed

lemma getitem_returned:
  assumes miss: "dict_getitem h (singletons c) d = None"
    and fresh: "\<not> on_stack h (instantiation_stack c) d"
    and ps: "providers c = ps1 @ p # ps2"
    and decl: "\<forall>q\<in>set ps1. declines q (to_request d)"
    and r: "run (getitem n h) (p (to_request d) (provider_state c)) (push d c) = Some (Returned (Some i), c')"
  shows "getitem (Suc n) h d c =
     Some (Value (item i),
           pop (if singleton i then c'\<lparr>singletons := dict_setitem h (singletons c') d (item i)\<rparr> else c'))"
proof -
  have "provider_state (push d c) = provider_state c" by (simp add: push_def)
  with r have "try_providers (getitem n h) h (p # ps2) d (push d c) =
      Some (Found (item i),
            if singleton i then c'\<lparr>singletons := dict_setitem h (singletons c') d (item i)\<rparr> else c')"
    by simp
  then show ?thesis unfolding getitem_reaches[OF miss fresh ps decl] by simp
qed

lemma run_pushed:
  assumes miss: "dict_getitem h (singletons c) d = None"
    and r: "run (getitem n h) a (push d c) = Some (x, c')"
  shows "instantiation_stack c' = instantiation_stack c @ [d] \<and> providers c' = providers c \<and>
         dict_getitem h (singletons c') d = None"
proof -
  have "untouched h (push d c) c'" by (rule run_untouched[OF keeps_getitem r])
  moreover have "on_stack h (instantiation_stack (push d c)) d"
    by (simp add: push_def on_stack_iff)
  moreover have "dict_getitem h (singletons (push d c)) d = None"
    using miss by (simp add: push_def)
  ultimately show ?thesis by (simp add: untouched_def push_def)
qed

lemma try_providers_all_decline:
  "\<forall>q\<in>set ps. \<forall>s. \<exists>s'. q (to_request d) s = Raise DependencyNotProvidableError s' \<Longrightarrow>
   \<exists>s'. try_providers get h ps d c = Some (Exhausted, c\<lparr>provider_state := s'\<rparr>)"
proof (induction ps arbitrary: c)
  case Nil
  have "c = c\<lparr>provider_state := provider_state c\<rparr>" by simp
  then show ?case by (metis try_providers.simps(1))
next
  case (Cons p ps)
  from Cons.prems obtain s1 where
    p: "p (to_request d) (provider_state c) = Raise DependencyNotProvidableError s1"
    by (metis list.set_intros(1))
  from Cons.prems have "\<forall>q\<in>set ps. \<forall>s. \<exists>s'. q (to_request d) s = Raise DependencyNotProvidableError s'"
    by simp
  from Cons.IH[OF this, of "c\<lparr>provider_state := s1\<rparr>"] obtain s' where
    "try_providers get h ps d (c\<lparr>provider_state := s1\<rparr>) = Some (Exhausted, c\<lparr>provider_state := s'\<rparr>)"
    by auto
  with p show ?case by auto
qed

section \<open>Evaluating the examples\<close>

lemmas example_defs = container_of_def declining_def returning_None_def raising_def building_def
  circular_def pass_on_def len_hash_def

lemmas step_defs = getitem_body_def locked_getitem_def instantiating_enter_def on_stack_def
  key_match_def Dependency_eq_def Dependency_hash_def to_request_def pop_def push_def
  instantiating_exit_def

section \<open>The claims about the container\<close>

text \<open>
  C1. A lookup returns the cached singleton if there is one. On a miss the body under
  the lock looks the cache up again first. The providers are asked in registration
  order: providers that decline are passed over and the first that does not decides,
  whatever providers follow it. If that provider returns an instance with
  \<open>singleton\<close> set, the item is stored in the cache and every further lookup of the
  id returns that same object without asking a provider; if \<open>singleton\<close> is not set,
  the id stays out of the cache and the next lookup asks the same provider again.
\<close>

theorem getitem_resolution:
  "(dict_getitem h (singletons c) d = Some v \<longrightarrow> getitem n h d c = Some (Value v, c))
   \<and> (\<not> on_stack h (instantiation_stack c) d \<and> dict_getitem h (singletons c) d = Some v \<longrightarrow>
        locked_getitem get h d c = Some (Value v, c))
   \<and> ((\<forall>q\<in>set qs. declines q (to_request d))
        \<and> run get (p (to_request d) (provider_state c)) c = Some (r, c')
        \<and> r \<noteq> Raised DependencyNotProvidableError \<longrightarrow>
        try_providers get h (qs @ p # rest) d c = try_providers get h [p] d c)
   \<and> (dict_getitem h (singletons c) d = None \<and> \<not> on_stack h (instantiation_stack c) d
        \<and> providers c = qs @ p # rest \<and> (\<forall>q\<in>set qs. declines q (to_request d))
        \<and> run (getitem n h) (p (to_request d) (provider_state c)) (push d c)
            = Some (Returned (Some i), c') \<longrightarrow>
        (let c'' = pop (if singleton i
                        then c'\<lparr>singletons := dict_setitem h (singletons c') d (item i)\<rparr>
                        else c')
         in getitem (Suc n) h d c = Some (Value (item i), c'')
            \<and> (if singleton i
                then \<forall>m. getitem m h d c'' = Some (Value (item i), c'')
                else dict_getitem h (singletons c'') d = None
                     \<and> (\<forall>m. getitem (Suc m) h d c'' =
                           (case try_providers (getitem m h) h (p # rest) d (push d c'') of
                              None \<Rightarrow> None
                            | Some (r2, c2) \<Rightarrow> Some (handle d r2, pop c2))))))"
proof (intro conjI impI)
  assume "dict_getitem h (singletons c) d = Some v"
  then show "getitem n h d c = Some (Value v, c)" by (rule getitem_hit)
next
  assume "\<not> on_stack h (instantiation_stack c) d \<and> dict_getitem h (singletons c) d = Some v"
  then show "locked_getitem get h d c = Some (Value v, c)" by (simp add: locked_getitem_hit)
next
  assume a: "(\<forall>q\<in>set qs. declines q (to_request d))
        \<and> run get (p (to_request d) (provider_state c)) c = Some (r, c')
        \<and> r \<noteq> Raised DependencyNotProvidableError"
  then have "try_providers get h (qs @ p # rest) d c = try_providers get h (p # rest) d c"
    by (simp add: try_providers_declines)
  also from a have "\<dots> = try_providers get h [p] d c"
    by (intro try_providers_first) auto
  finally show "try_providers get h (qs @ p # rest) d c = try_providers get h [p] d c" .
next
  assume a: "dict_getitem h (singletons c) d = None \<and> \<not> on_stack h (instantiation_stack c) d
        \<and> providers c = qs @ p # rest \<and> (\<forall>q\<in>set qs. declines q (to_request d))
        \<and> run (getitem n h) (p (to_request d) (provider_state c)) (push d c)
            = Some (Returned (Some i), c')"
  then have miss: "dict_getitem h (singletons c) d = None"
    and fresh: "\<not> on_stack h (instantiation_stack c) d"
    and ps: "providers c = qs @ p # rest"
    and decl: "\<forall>q\<in>set qs. declines q (to_request d)"
    and r: "run (getitem n h) (p (to_request d) (provider_state c)) (push d c)
            = Some (Returned (Some i), c')"
    by simp_all
  define c'' where "c'' = pop (if singleton i
                        then c'\<lparr>singletons := dict_setitem h (singletons c') d (item i)\<rparr>
                        else c')"
  have g: "getitem (Suc n) h d c = Some (Value (item i), c'')"
    unfolding c''_def by (rule getitem_returned[OF miss fresh ps decl r])
  from run_pushed[OF miss r] have st: "instantiation_stack c' = instantiation_stack c @ [d]"
    and pr: "providers c' = providers c" and cm: "dict_getitem h (singletons c') d = None"
    by simp_all
  have st'': "instantiation_stack c'' = instantiation_stack c" and pr'': "providers c'' = providers c"
    using st pr by (simp_all add: c''_def pop_def instantiating_exit_def)
  have refl: "key_match h d d" by (simp add: key_match_iff)
  have fin: "if singleton i
        then \<forall>m. getitem m h d c'' = Some (Value (item i), c'')
        else dict_getitem h (singletons c'') d = None
             \<and> (\<forall>m. getitem (Suc m) h d c'' =
                   (case try_providers (getitem m h) h (p # rest) d (push d c'') of
                      None \<Rightarrow> None
                    | Some (r2, c2) \<Rightarrow> Some (handle d r2, pop c2)))"
  proof (cases "singleton i")
    case True
    then have "dict_getitem h (singletons c'') d = Some (item i)"
      by (simp add: c''_def pop_def dict_getitem_setitem[OF refl])
    then have "\<forall>m. getitem m h d c'' = Some (Value (item i), c'')"
      by (simp add: getitem_hit)
    with True show ?thesis by simp
  next
    case False
    then have m'': "dict_getitem h (singletons c'') d = None"
      using cm by (simp add: c''_def pop_def)
    have f'': "\<not> on_stack h (instantiation_stack c'') d" using fresh st'' by simp
    have p'': "providers c'' = qs @ p # rest" using pr'' ps by simp
    from getitem_reaches[OF m'' f'' p'' decl] m'' False show ?thesis by simp
  qed
  from g fin show "let c'' = pop (if singleton i
                        then c'\<lparr>singletons := dict_setitem h (singletons c') d (item i)\<rparr>
                        else c')
         in getitem (Suc n) h d c = Some (Value (item i), c'')
            \<and> (if singleton i
                then \<forall>m. getitem m h d c'' = Some (Value (item i), c'')
                else dict_getitem h (singletons c'') d = None
                     \<and> (\<forall>m. getitem (Suc m) h d c'' =
                           (case try_providers (getitem m h) h (p # rest) d (push d c'') of
                              None \<Rightarrow> None
                            | Some (r2, c2) \<Rightarrow> Some (handle d r2, pop c2))))"
    unfolding c''_def Let_def by blast
qed


theorem getitem_resolution_witness:
  "dict_getitem len_hash (singletons (setitem len_hash (Id ''x'') 5 (container_of [building True])))
       (Dependency ''x'') = Some 5
   \<and> declines declining (to_request (Id ''x''))
   \<and> run (getitem 0 len_hash) (building True (to_request (Id ''x'')) 0)
        (push (Id ''x'') (container_of [declining, building True, returning_None]))
     = Some (Returned (Some \<lparr>item = 0, singleton = True\<rparr>),
             (push (Id ''x'') (container_of [declining, building True, returning_None]))
               \<lparr>provider_state := 1\<rparr>)
   \<and> run (getitem 0 len_hash) (building False (to_request (Id ''x'')) 0)
        (push (Id ''x'') (container_of [declining, building False, returning_None]))
     = Some (Returned (Some \<lparr>item = 0, singleton = False\<rparr>),
             (push (Id ''x'') (container_of [declining, building False, returning_None]))
               \<lparr>provider_state := 1\<rparr>)
   \<and> getitem 0 len_hash (Dependency ''x'') (setitem len_hash (Id ''x'') 5 (container_of [building True]))
     = Some (Value 5, setitem len_hash (Id ''x'') 5 (container_of [building True]))
   \<and> locked_getitem (\<lambda>d c. None) len_hash (Dependency ''x'')
        (setitem len_hash (Id ''x'') 5 (container_of [building True]))
     = Some (Value 5, setitem len_hash (Id ''x'') 5 (container_of [building True]))
   \<and> try_providers (\<lambda>d c. None) len_hash ([declining] @ building False # [returning_None])
        (Id ''x'') (container_of [])
     = try_providers (\<lambda>d c. None) len_hash [building False] (Id ''x'') (container_of [])
   \<and> getitem (Suc 0) len_hash (Id ''x'') (container_of [declining, building True, returning_None])
     = Some (Value 0, (container_of [declining, building True, returning_None])
                        \<lparr>singletons := [(Id ''x'', 0)], provider_state := 1\<rparr>)
   \<and> getitem 0 len_hash (Id ''x'') ((container_of [declining, building True, returning_None])
                        \<lparr>singletons := [(Id ''x'', 0)], provider_state := 1\<rparr>)
     = Some (Value 0, (container_of [declining, building True, returning_None])
                        \<lparr>singletons := [(Id ''x'', 0)], provider_state := 1\<rparr>)
   \<and> getitem (Suc 0) len_hash (Id ''x'') (container_of [declining, building False, returning_None])
     = Some (Value 0, (container_of [declining, building False, returning_None])\<lparr>provider_state := 1\<rparr>)
   \<and> getitem (Suc 0) len_hash (Id ''x'')
        ((container_of [declining, building False, returning_None])\<lparr>provider_state := 1\<rparr>)
     = Some (Value 1, (container_of [declining, building False, returning_None])\<lparr>provider_state := 2\<rparr>)"
  using
    getitem_resolution[where h = len_hash and d = "Dependency ''x''" and v = 5 and n = 0
      and c = "setitem len_hash (Id ''x'') 5 (container_of [building True])"
      and get = "\<lambda>d c. None" and qs = "[]" and p = declining and rest = "[]"
      and r = "Raised DependencyNotProvidableError"
      and c' = "setitem len_hash (Id ''x'') 5 (container_of [building True])"
      and i = "\<lparr>item = 0, singleton = False\<rparr>"]
    getitem_resolution[where h = len_hash and d = "Id ''x''" and v = 0 and n = 0
      and c = "container_of []"
      and get = "\<lambda>d c. None" and qs = "[declining]" and p = "building False"
      and rest = "[returning_None]"
      and r = "Returned (Some \<lparr>item = 0, singleton = False\<rparr>)"
      and c' = "(container_of [])\<lparr>provider_state := 1\<rparr>"
      and i = "\<lparr>item = 0, singleton = False\<rparr>"]
    getitem_resolution[where h = len_hash and d = "Id ''x''" and v = 0 and n = 0
      and c = "container_of [declining, building True, returning_None]"
      and get = "getitem 0 len_hash" and qs = "[declining]" and p = "building True"
      and rest = "[returning_None]"
      and r = "Returned (Some \<lparr>item = 0, singleton = True\<rparr>)"
      and c' = "(push (Id ''x'') (container_of [declining, building True, returning_None]))
                  \<lparr>provider_state := 1\<rparr>"
      and i = "\<lparr>item = 0, singleton = True\<rparr>"]
    getitem_resolution[where h = len_hash and d = "Id ''x''" and v = 0 and n = 0
      and c = "container_of [declining, building False, returning_None]"
      and get = "getitem 0 len_hash" and qs = "[declining]" and p = "building False"
      and rest = "[returning_None]"
      and r = "Returned (Some \<lparr>item = 0, singleton = False\<rparr>)"
      and c' = "(push (Id ''x'') (container_of [declining, building False, returning_None]))
                  \<lparr>provider_state := 1\<rparr>"
      and i = "\<lparr>item = 0, singleton = False\<rparr>"]
  by (simp add: example_defs step_defs setitem_def declines_def)

text \<open>
  C2. A lookup of an id that is already on the instantiation stack (so its own
  resolution, directly or through other dependencies, asks for it again) and is not
  cached raises \<open>DependencyCycleError\<close> with the stack followed by the id as path; a
  provider that asks for such an id gets that exception from its nested lookup; a
  \<open>DependencyCycleError\<close> that leaves a provider leaves the lookup unwrapped. A lookup
  that has returned or raised leaves the instantiation stack as it found it, so the
  same id looked up again afterwards passes the cycle check as it did before: with no
  lookup in progress it is pushed and none is raised. An id is pushed after it has
  missed the cache, and nested lookups leave it out of the cache while it is on the
  stack (\<open>getitem_untouched\<close>), which is the cache miss the first two parts assume.
\<close>

theorem getitem_cycle_detection:
  "(dict_getitem h (singletons c) d = None \<and> on_stack h (instantiation_stack c) d \<longrightarrow>
      getitem n h d c = Some (Exn (DependencyCycleError (instantiation_stack c @ [d])), c))
   \<and> (dict_getitem h (singletons c) inner = None \<and> on_stack h (instantiation_stack c @ [d]) inner \<longrightarrow>
      run (getitem n h) (Get inner k) (push d c)
        = run (getitem n h)
            (k (Exn (DependencyCycleError (instantiation_stack c @ [d, inner]))) (provider_state c))
            (push d c))
   \<and> (dict_getitem h (singletons c) d = None \<and> \<not> on_stack h (instantiation_stack c) d
        \<and> providers c = qs @ p # rest \<and> (\<forall>q\<in>set qs. declines q (to_request d))
        \<and> run (getitem n h) (p (to_request d) (provider_state c)) (push d c)
            = Some (Raised (DependencyCycleError path), c') \<longrightarrow>
      getitem (Suc n) h d c = Some (Exn (DependencyCycleError path), pop c'))
   \<and> (getitem n h d c = Some (x, c') \<longrightarrow>
      instantiation_stack c' = instantiation_stack c
      \<and> instantiating_enter h (instantiation_stack c') d = instantiating_enter h (instantiation_stack c) d)
   \<and> (instantiation_stack c = [] \<and> getitem n h d c = Some (x, c') \<longrightarrow>
      instantiating_enter h (instantiation_stack c') d = Inr [d])"
proof (intro conjI impI)
  assume "dict_getitem h (singletons c) d = None \<and> on_stack h (instantiation_stack c) d"
  then show "getitem n h d c = Some (Exn (DependencyCycleError (instantiation_stack c @ [d])), c)"
    by (simp add: getitem_cycle)
next
  assume a: "dict_getitem h (singletons c) inner = None
    \<and> on_stack h (instantiation_stack c @ [d]) inner"
  then have "dict_getitem h (singletons (push d c)) inner = None"
    and "on_stack h (instantiation_stack (push d c)) inner"
    by (simp_all add: push_def)
  then have "getitem n h inner (push d c)
      = Some (Exn (DependencyCycleError (instantiation_stack (push d c) @ [inner])), push d c)"
    by (rule getitem_cycle)
  then show "run (getitem n h) (Get inner k) (push d c)
        = run (getitem n h)
            (k (Exn (DependencyCycleError (instantiation_stack c @ [d, inner]))) (provider_state c))
            (push d c)"
    by (simp add: push_def)
next
  assume a: "dict_getitem h (singletons c) d = None \<and> \<not> on_stack h (instantiation_stack c) d
        \<and> providers c = qs @ p # rest \<and> (\<forall>q\<in>set qs. declines q (to_request d))
        \<and> run (getitem n h) (p (to_request d) (provider_state c)) (push d c)
            = Some (Raised (DependencyCycleError path), c')"
  have "getitem (Suc n) h d c = Some (handle d (Failed (DependencyCycleError path)), pop c')"
    by (rule getitem_raised[where ?ps1.0 = qs and p = p and ?ps2.0 = rest]) (use a in simp_all)
  then show "getitem (Suc n) h d c = Some (Exn (DependencyCycleError path), pop c')" by simp
next
  assume "getitem n h d c = Some (x, c')"
  then have "untouched h c c'" by (rule getitem_untouched)
  then show "instantiation_stack c' = instantiation_stack c"
    by (simp add: untouched_def)
next
  assume "getitem n h d c = Some (x, c')"
  then have "untouched h c c'" by (rule getitem_untouched)
  then show "instantiating_enter h (instantiation_stack c') d
      = instantiating_enter h (instantiation_stack c) d"
    by (simp add: untouched_def)
next
  assume a: "instantiation_stack c = [] \<and> getitem n h d c = Some (x, c')"
  then have "getitem n h d c = Some (x, c')" by simp
  then have "untouched h c c'" by (rule getitem_untouched)
  with a show "instantiating_enter h (instantiation_stack c') d = Inr [d]"
    by (simp add: untouched_def instantiating_enter_def on_stack_def)
qed

theorem getitem_cycle_detection_witness:
  "on_stack len_hash (instantiation_stack (push (Id ''a'') (container_of [circular]))) (Dependency ''a'')
   \<and> dict_getitem len_hash (singletons (push (Id ''a'') (container_of [circular]))) (Dependency ''a'')
       = None
   \<and> run (getitem (Suc 0) len_hash) (circular (to_request (Id ''a'')) 0)
        (push (Id ''a'') (container_of [circular]))
     = Some (Raised (DependencyCycleError [Id ''a'', Id ''b'', Id ''a'']),
             push (Id ''a'') (container_of [circular]))
   \<and> getitem 0 len_hash (Dependency ''a'') (push (Id ''a'') (container_of [circular]))
     = Some (Exn (DependencyCycleError [Id ''a'', Dependency ''a'']), push (Id ''a'') (container_of [circular]))
   \<and> run (getitem 0 len_hash) (Get (Id ''a'') pass_on) (push (Id ''b'') (push (Id ''a'') (container_of [circular])))
     = Some (Raised (DependencyCycleError [Id ''a'', Id ''b'', Id ''a'']),
             push (Id ''b'') (push (Id ''a'') (container_of [circular])))
   \<and> getitem (Suc (Suc 0)) len_hash (Id ''a'') (container_of [circular])
     = Some (Exn (DependencyCycleError [Id ''a'', Id ''b'', Id ''a'']), container_of [circular])
   \<and> getitem (Suc 0) len_hash (Id ''x'') (container_of [building False])
     = Some (Value 0, (container_of [building False])\<lparr>provider_state := 1\<rparr>)
   \<and> instantiation_stack ((container_of [building False])\<lparr>provider_state := 1\<rparr>) = []
   \<and> getitem (Suc 0) len_hash (Id ''x'') ((container_of [building False])\<lparr>provider_state := 1\<rparr>)
     = Some (Value 1, (container_of [building False])\<lparr>provider_state := 2\<rparr>)"
  using
    getitem_cycle_detection[where h = len_hash and c = "push (Id ''a'') (container_of [circular])"
      and d = "Dependency ''a''" and n = 0 and inner = "Id ''a''" and k = pass_on
      and qs = "[]" and p = circular and rest = "[]" and path = "[]"
      and c' = "push (Id ''a'') (container_of [circular])"
      and x = "Exn (DependencyCycleError [Id ''a'', Dependency ''a''])"]
    getitem_cycle_detection[where h = len_hash and c = "push (Id ''a'') (container_of [circular])"
      and d = "Id ''b''" and n = 0 and inner = "Id ''a''" and k = pass_on
      and qs = "[]" and p = circular and rest = "[]" and path = "[]"
      and c' = "push (Id ''a'') (container_of [circular])"
      and x = "Exn (DependencyCycleError [Id ''a'', Dependency ''a''])"]
    getitem_cycle_detection[where h = len_hash and c = "container_of [circular]"
      and d = "Id ''a''" and n = "Suc 0" and inner = "Id ''a''" and k = pass_on
      and qs = "[]" and p = circular and rest = "[]"
      and path = "[Id ''a'', Id ''b'', Id ''a'']"
      and c' = "push (Id ''a'') (container_of [circular])"
      and x = "Exn (DependencyCycleError [Id ''a'', Id ''b'', Id ''a''])"]
    getitem_cycle_detection[where h = len_hash and c = "container_of [building False]"
      and d = "Id ''x''" and n = "Suc 0" and inner = "Id ''a''" and k = pass_on
      and qs = "[]" and p = "building False" and rest = "[]" and path = "[]"
      and c' = "(container_of [building False])\<lparr>provider_state := 1\<rparr>"
      and x = "Value 0"]
  by (simp add: example_defs step_defs setitem_def declines_def)

text \<open>
  C3, as the code has it. In \<open>DependencyContainer.__getitem__\<close> a provider declines by
  raising \<open>DependencyNotProvidableError\<close>: the lookup is then decided by the providers
  that follow. That exception is the only thing the loop swallows: any other
  exception of the provider ends the lookup with an exception, and the object
  \<open>None\<close> returned by a provider is no decline but ends the lookup with
  \<open>DependencyInstantiationError\<close> caused by \<open>AttributeError\<close>. \<open>TagProvider.provide\<close> itself
  returns \<open>None\<close>, and raises nothing, for every request that is not \<open>Tagged\<close>.
\<close>

theorem provider_decline_signal:
  assumes "dict_getitem h (singletons c) d = None"
    and "\<not> on_stack h (instantiation_stack c) d"
    and "providers c = qs @ p # rest"
    and "\<forall>q\<in>set qs. declines q (to_request d)"
    and "run (getitem n h) (p (to_request d) (provider_state c)) (push d c) = Some (x, c')"
  shows "(x = Raised DependencyNotProvidableError \<longrightarrow>
            getitem (Suc n) h d c =
              (case try_providers (getitem n h) h rest d c' of
                 None \<Rightarrow> None
               | Some (r, c2) \<Rightarrow> Some (handle d r, pop c2)))
         \<and> (x = Returned None \<longrightarrow>
            getitem (Suc n) h d c = Some (Exn (DependencyInstantiationError d AttributeError), pop c'))
         \<and> (\<forall>e. x = Raised e \<and> e \<noteq> DependencyNotProvidableError \<longrightarrow>
            getitem (Suc n) h d c = Some (handle d (Failed e), pop c')
            \<and> (\<exists>e'. handle d (Failed e) = (Exn e' :: ('k, 'v) outcome)))
         \<and> provide reg (NotTagged y) = None"
proof -
  have s: "provider_state (push d c) = provider_state c" by (simp add: push_def)
  note reach = getitem_reaches[OF assms(1-4), of n]
  have 1: "x = Raised DependencyNotProvidableError \<longrightarrow>
            getitem (Suc n) h d c =
              (case try_providers (getitem n h) h rest d c' of
                 None \<Rightarrow> None
               | Some (r, c2) \<Rightarrow> Some (handle d r, pop c2))"
    unfolding reach using assms(5) s by simp
  have 2: "x = Returned None \<longrightarrow>
            getitem (Suc n) h d c = Some (Exn (DependencyInstantiationError d AttributeError), pop c')"
    unfolding reach using assms(5) s by simp
  have 3: "\<forall>e. x = Raised e \<and> e \<noteq> DependencyNotProvidableError \<longrightarrow>
            getitem (Suc n) h d c = Some (handle d (Failed e), pop c')
            \<and> (\<exists>e'. handle d (Failed e) = (Exn e' :: ('k, 'v) outcome))"
  proof (intro allI impI)
    fix e
    assume a: "x = Raised e \<and> e \<noteq> DependencyNotProvidableError"
    then have ne: "\<not> isinstance_DependencyNotProvidableError e" by (cases e) simp_all
    from a assms(5) have "run (getitem n h) (p (to_request d) (provider_state c)) (push d c)
        = Some (Raised e, c')" by simp
    from getitem_raised[OF assms(1-4) this ne]
    show "getitem (Suc n) h d c = Some (handle d (Failed e), pop c')
            \<and> (\<exists>e'. handle d (Failed e) = (Exn e' :: ('k, 'v) outcome))"
      by simp
  qed
  from 1 2 3 show ?thesis by simp
qed


theorem provider_decline_signal_witness:
  "run (getitem 0 len_hash) (declining (to_request (Id ''x'')) 0)
       (push (Id ''x'') (container_of [declining, building False]))
     = Some (Raised DependencyNotProvidableError, push (Id ''x'') (container_of [declining, building False]))
   \<and> run (getitem 0 len_hash) (returning_None (to_request (Id ''x'')) 0)
       (push (Id ''x'') (container_of [returning_None, building False]))
     = Some (Returned None, push (Id ''x'') (container_of [returning_None, building False]))
   \<and> getitem (Suc 0) len_hash (Id ''x'') (container_of [declining, building False])
     = Some (Value 0, (container_of [declining, building False])\<lparr>provider_state := 1\<rparr>)
   \<and> getitem (Suc 0) len_hash (Id ''x'') (container_of [returning_None, building False])
     = Some (Exn (DependencyInstantiationError (Id ''x'') AttributeError),
             container_of [returning_None, building False])
   \<and> getitem (Suc 0) len_hash (Id ''x'') (container_of [raising (DependencyNotFoundError (Id ''y'')), building False])
     = Some (Exn (DependencyInstantiationError (Id ''x'') (DependencyNotFoundError (Id ''y''))),
             container_of [raising (DependencyNotFoundError (Id ''y'')), building False])
   \<and> provide ([] :: (string, nat) tag_registry) (NotTagged ''x'')
     = (None :: (string, nat, nat) TaggedDependencies Instance option)"
  using
    provider_decline_signal[where h = len_hash and d = "Id ''x''" and n = 0
      and c = "container_of [declining, building False]"
      and qs = "[]" and p = declining and rest = "[building False]"
      and x = "Raised DependencyNotProvidableError"
      and c' = "push (Id ''x'') (container_of [declining, building False])"
      and reg = "[] :: (string, nat) tag_registry" and y = "''x''"]
    provider_decline_signal[where h = len_hash and d = "Id ''x''" and n = 0
      and c = "container_of [returning_None, building False]"
      and qs = "[]" and p = returning_None and rest = "[building False]"
      and x = "Returned None"
      and c' = "push (Id ''x'') (container_of [returning_None, building False])"
      and reg = "[] :: (string, nat) tag_registry" and y = "''x''"]
    provider_decline_signal[where h = len_hash and d = "Id ''x''" and n = 0
      and c = "container_of [raising (DependencyNotFoundError (Id ''y'')), building False]"
      and qs = "[]" and p = "raising (DependencyNotFoundError (Id ''y''))" and rest = "[building False]"
      and x = "Raised (DependencyNotFoundError (Id ''y''))"
      and c' = "push (Id ''x'') (container_of [raising (DependencyNotFoundError (Id ''y'')), building False])"
      and reg = "[] :: (string, nat) tag_registry" and y = "''x''"]
  by (simp add: example_defs step_defs declines_def)

text \<open>
  The claim as the spec states it fails on the container. A provider that returns the
  object \<open>None\<close>, the no-match value of \<open>TagProvider.provide\<close>, does not make the lookup go
  on to the next provider, which would have built the dependency: the lookup raises
  \<open>DependencyInstantiationError\<close>. A provider that raises \<open>DependencyNotProvidableError\<close>
  does: the exception is swallowed and the next provider builds the dependency.
\<close>

theorem provider_decline_signal_counterexample:
  "run (getitem 0 len_hash) (returning_None (to_request (Id ''x'')) 0)
       (push (Id ''x'') (container_of [returning_None, building False]))
     = Some (Returned None, push (Id ''x'') (container_of [returning_None, building False]))
   \<and> getitem (Suc 0) len_hash (Id ''x'') (container_of [returning_None, building False])
     = Some (Exn (DependencyInstantiationError (Id ''x'') AttributeError),
             container_of [returning_None, building False])
   \<and> run (getitem 0 len_hash) (declining (to_request (Id ''x'')) 0)
       (push (Id ''x'') (container_of [declining, building False]))
     = Some (Raised DependencyNotProvidableError, push (Id ''x'') (container_of [declining, building False]))
   \<and> getitem (Suc 0) len_hash (Id ''x'') (container_of [declining, building False])
     = Some (Value 0, (container_of [declining, building False])\<lparr>provider_state := 1\<rparr>)"
  by (simp add: example_defs step_defs)

text \<open>
  C4. For every id that is not in the singleton cache, is not being resolved, and that
  every registered provider declines, the lookup raises \<open>DependencyNotFoundError\<close>
  carrying the requested id; the cache and the instantiation stack are as before. An
  id is on the instantiation stack only while a provider, asked for it, looks
  something up in the container; providers that decline it at once never do.
\<close>

theorem getitem_not_found:
  assumes "dict_getitem h (singletons c) d = None"
    and "\<not> on_stack h (instantiation_stack c) d"
    and "\<forall>q\<in>set (providers c). \<forall>s. \<exists>s'. q (to_request d) s = Raise DependencyNotProvidableError s'"
  shows "\<exists>s'. getitem n h d c = Some (Exn (DependencyNotFoundError d), c\<lparr>provider_state := s'\<rparr>)"
proof -
  let ?get = "case n of 0 \<Rightarrow> (\<lambda>d c. None) | Suc m \<Rightarrow> getitem m h"
  have g: "getitem n h = getitem_body ?get h" by (cases n) simp_all
  from assms(3) have "\<forall>q\<in>set (providers c). \<forall>s. \<exists>s'. q (to_request d) s = Raise DependencyNotProvidableError s'" .
  from try_providers_all_decline[OF this, of ?get h "push d c"] obtain s' where
    "try_providers ?get h (providers c) d (push d c) = Some (Exhausted, (push d c)\<lparr>provider_state := s'\<rparr>)"
    by auto
  moreover have "pop ((push d c)\<lparr>provider_state := s'\<rparr>) = c\<lparr>provider_state := s'\<rparr>"
    by (simp add: pop_def push_def instantiating_exit_def)
  ultimately have "getitem n h d c = Some (Exn (DependencyNotFoundError d), c\<lparr>provider_state := s'\<rparr>)"
    unfolding g getitem_body_miss[OF assms(1,2)] by simp
  then show ?thesis by blast
qed

theorem getitem_not_found_witness:
  "dict_getitem len_hash (singletons (container_of [declining, declining])) (Id ''x'') = None
   \<and> \<not> on_stack len_hash (instantiation_stack (container_of [declining, declining])) (Id ''x'')
   \<and> (\<exists>s'. getitem 0 len_hash (Id ''x'') (container_of [declining, declining])
        = Some (Exn (DependencyNotFoundError (Id ''x'')),
                (container_of [declining, declining])\<lparr>provider_state := s'\<rparr>))"
  using getitem_not_found[of len_hash "container_of [declining, declining]" "Id ''x''" 0]
  by (simp add: example_defs on_stack_def)

text \<open>
  C5, as the code has it. When the provider that the lookup reaches raises an
  exception derived from \<open>Exception\<close> that is neither \<open>DependencyCycleError\<close> nor
  \<open>DependencyNotProvidableError\<close>, the lookup raises \<open>DependencyInstantiationError\<close>
  carrying the requested key, with the original exception as its cause; a
  \<open>DependencyCycleError\<close> leaves the lookup as it is. In both cases the instantiation
  stack is as before the lookup.
\<close>

theorem provider_exception_wrapped:
  assumes "dict_getitem h (singletons c) d = None"
    and "\<not> on_stack h (instantiation_stack c) d"
    and "providers c = qs @ p # rest"
    and "\<forall>q\<in>set qs. declines q (to_request d)"
    and "run (getitem n h) (p (to_request d) (provider_state c)) (push d c) = Some (Raised e, c')"
  shows "(isinstance_Exception e \<and> \<not> isinstance_DependencyCycleError e
          \<and> \<not> isinstance_DependencyNotProvidableError e \<longrightarrow>
            getitem (Suc n) h d c = Some (Exn (DependencyInstantiationError d e), pop c'))
         \<and> (isinstance_DependencyCycleError e \<longrightarrow> getitem (Suc n) h d c = Some (Exn e, pop c'))
         \<and> instantiation_stack (pop c') = instantiation_stack c"
proof (intro conjI impI)
  assume a: "isinstance_Exception e \<and> \<not> isinstance_DependencyCycleError e
          \<and> \<not> isinstance_DependencyNotProvidableError e"
  then have "getitem (Suc n) h d c = Some (handle d (Failed e), pop c')"
    by (intro getitem_raised[OF assms(1-5)]) simp
  with a show "getitem (Suc n) h d c = Some (Exn (DependencyInstantiationError d e), pop c')"
    by simp
next
  assume a: "isinstance_DependencyCycleError e"
  then have "\<not> isinstance_DependencyNotProvidableError e" by (cases e) simp_all
  then have "getitem (Suc n) h d c = Some (handle d (Failed e), pop c')"
    by (rule getitem_raised[OF assms(1-5)])
  with a show "getitem (Suc n) h d c = Some (Exn e, pop c')" by simp
next
  from run_pushed[OF assms(1,5)] show "instantiation_stack (pop c') = instantiation_stack c"
    by (simp add: pop_def instantiating_exit_def)
qed

theorem provider_exception_wrapped_witness:
  "run (getitem 0 len_hash) (raising (OtherException ''KeyError'') (to_request (Id ''x'')) 0)
      (push (Id ''x'') (container_of [declining, raising (OtherException ''KeyError''), building True]))
     = Some (Raised (OtherException ''KeyError''),
             push (Id ''x'') (container_of [declining, raising (OtherException ''KeyError''), building True]))
   \<and> isinstance_Exception (OtherException ''KeyError'' :: string exn)
   \<and> getitem (Suc 0) len_hash (Id ''x'')
      (container_of [declining, raising (OtherException ''KeyError''), building True])
     = Some (Exn (DependencyInstantiationError (Id ''x'') (OtherException ''KeyError'')),
             container_of [declining, raising (OtherException ''KeyError''), building True])
   \<and> getitem (Suc 0) len_hash (Id ''x'')
      (container_of [raising (DependencyCycleError [Id ''y'', Id ''y''])])
     = Some (Exn (DependencyCycleError [Id ''y'', Id ''y'']),
             container_of [raising (DependencyCycleError [Id ''y'', Id ''y''])])"
  using
    provider_exception_wrapped[where h = len_hash and d = "Id ''x''" and n = 0
      and c = "container_of [declining, raising (OtherException ''KeyError''), building True]"
      and qs = "[declining]" and p = "raising (OtherException ''KeyError'')"
      and rest = "[building True]" and e = "OtherException ''KeyError''"
      and c' = "push (Id ''x'')
                 (container_of [declining, raising (OtherException ''KeyError''), building True])"]
    provider_exception_wrapped[where h = len_hash and d = "Id ''x''" and n = 0
      and c = "container_of [raising (DependencyCycleError [Id ''y'', Id ''y''])]"
      and qs = "[]" and p = "raising (DependencyCycleError [Id ''y'', Id ''y''])"
      and rest = "[]" and e = "DependencyCycleError [Id ''y'', Id ''y'']"
      and c' = "push (Id ''x'') (container_of [raising (DependencyCycleError [Id ''y'', Id ''y''])])"]
  by (simp add: example_defs step_defs declines_def)

text \<open>
  The claim as the spec states it fails on a provider that raises
  \<open>DependencyNotProvidableError\<close>: the exception is not a \<open>DependencyCycleError\<close>, and the
  lookup raises \<open>DependencyNotFoundError\<close>, not \<open>DependencyInstantiationError\<close>. It also
  fails on an exception that is not derived from \<open>Exception\<close>, which leaves the lookup
  as it is.
\<close>

theorem provider_exception_wrapped_counterexample:
  "run (getitem 0 len_hash) (declining (to_request (Id ''x'')) 0) (push (Id ''x'') (container_of [declining]))
     = Some (Raised DependencyNotProvidableError, push (Id ''x'') (container_of [declining]))
   \<and> \<not> isinstance_DependencyCycleError (DependencyNotProvidableError :: string exn)
   \<and> getitem (Suc 0) len_hash (Id ''x'') (container_of [declining])
     = Some (Exn (DependencyNotFoundError (Id ''x'')), container_of [declining])
   \<and> getitem (Suc 0) len_hash (Id ''x'') (container_of [declining])
     \<noteq> Some (Exn (DependencyInstantiationError (Id ''x'') DependencyNotProvidableError),
             container_of [declining])
   \<and> getitem (Suc 0) len_hash (Id ''x'') (container_of [raising (NonException ''KeyboardInterrupt'')])
     = Some (Exn (NonException ''KeyboardInterrupt''),
             container_of [raising (NonException ''KeyboardInterrupt'')])"
  by (simp add: example_defs step_defs)

section \<open>The id's own comparison\<close>

lemma ids_eq_on_structural: "ids_eq_on structural x y = (x = y)"
  by (simp add: ids_eq_on_def structural_def)

lemma py_eq_on_structural: "py_eq_on structural a b = py_eq a b"
  by (cases a; cases b)
     (auto simp: Dependency_eq_on_def Dependency_eq_def ids_eq_on_structural structural_def)

lemma key_match_on_structural: "key_match_on structural h a b = key_match h a b"
  by (cases a; cases b) (auto simp: key_match_on_def key_match_def py_eq_on_structural
      simp del: py_eq_on.simps py_eq.simps, auto simp: Dependency_hash_def)

lemma dict_getitem_on_structural: "dict_getitem_on structural h m k = dict_getitem h m k"
  by (induction m) (auto simp: key_match_on_structural)

lemma dict_setitem_on_structural: "dict_setitem_on structural h m k v = dict_setitem h m k v"
  by (induction m) (auto simp: key_match_on_structural)






lemma first_try_on_structural:
  "first_try_on structural h d c = dict_getitem h (singletons c) d"
  "setitem_on structural h k v c = setitem h k v c"
  by (simp_all add: first_try_on_def setitem_on_def setitem_def dict_getitem_on_structural
      dict_setitem_on_structural)

text \<open>
  For ids that \<open>==\<close> compares structurally and that leave the comparison with a
  wrapper to the wrapper, the comparison of the container's model is the general
  one, and bare id and wrapper are one key for the cache and for \<open>__getitem__\<close>.
\<close>

lemma structural_ids_interchangeable:
  "Dependency_eq x (Id x) \<and> py_eq (Dependency x) (Id x) \<and> py_eq (Id x) (Dependency x)
   \<and> py_eq_on structural a b = py_eq a b
   \<and> dict_getitem h (dict_setitem h m (Id x) v) (Dependency x) = Some v
   \<and> dict_getitem h (dict_setitem h m (Dependency x) v) (Id x) = Some v
   \<and> getitem n h (Dependency x) (setitem h (Id x) v c) = Some (Value v, setitem h (Id x) v c)
   \<and> getitem n h (Id x) (setitem h (Dependency x) v c) = Some (Value v, setitem h (Dependency x) v c)"
proof -
  have a: "key_match h (Id x) (Dependency x)" and b: "key_match h (Dependency x) (Id x)"
    by (simp_all add: key_match_iff)
  have "getitem n h (Dependency x) (setitem h (Id x) v c) = Some (Value v, setitem h (Id x) v c)"
    by (rule getitem_hit) (simp add: setitem_def dict_getitem_setitem[OF a])
  moreover have "getitem n h (Id x) (setitem h (Dependency x) v c)
      = Some (Value v, setitem h (Dependency x) v c)"
    by (rule getitem_hit) (simp add: setitem_def dict_getitem_setitem[OF b])
  ultimately show ?thesis
    by (simp add: dict_getitem_setitem[OF a] dict_getitem_setitem[OF b]
        Dependency_eq_def py_eq_on_structural del: py_eq_on.simps)
qed





section \<open>The tag provider\<close>

lemma init_fold:
  "fold (\<lambda>td c. c\<lparr>dependencies := dependencies c @ [dependency td], tags := tags c @ [tag td]\<rparr>) tds c
   = c\<lparr>dependencies := dependencies c @ map dependency tds, tags := tags c @ map tag tds\<rparr>"
  by (induction tds arbitrary: c) simp_all

lemma TaggedDependencies_init_eq:
  "TaggedDependencies_init tds = \<lparr>dependencies = map dependency tds, tags = map tag tds, instances = []\<rparr>"
  by (simp add: TaggedDependencies_init_def init_fold)

lemma provide_Tagged:
  "provide reg (Tagged nm) =
     Some \<lparr>item = \<lparr>dependencies = map fst (case map_of reg nm of Some m \<Rightarrow> m | None \<Rightarrow> []),
                    tags = map snd (case map_of reg nm of Some m \<Rightarrow> m | None \<Rightarrow> []),
                    instances = []\<rparr>,
           singleton = False\<rparr>"
  by (simp add: TaggedDependencies_init_eq comp_def case_prod_unfold Let_def)

lemma registered_iff:
  "registered reg nm d = (d \<in> set (map fst (case map_of reg nm of Some m \<Rightarrow> m | None \<Rightarrow> [])))"
proof (cases "map_of reg nm")
  case None
  then show ?thesis by (simp add: registered_def)
next
  case (Some m)
  have "(map_of m d \<noteq> None) = (d \<in> fst ` set m)" by (simp add: map_of_eq_None_iff)
  with Some show ?thesis by (simp add: registered_def)
qed

lemma registered_with_tag:
  "\<not> registered reg (name tg) d \<Longrightarrow>
   registered (with_tag reg d tg) nm d' = (registered reg nm d' \<or> (nm = name tg \<and> d' = d))"
  by (auto simp: registered_def with_tag_def update_conv' split: option.splits)

lemma register_step:
  "tag_arg_name t = Some nm \<Longrightarrow>
   register reg d (t # ts) =
     (if registered reg nm d then (Some (DuplicateTagError nm), reg)
      else register (with_tag reg d (as_Tag t)) d ts)"
  by (cases t) (auto simp: registered_def with_tag_def as_Tag_def split: option.splits)

lemma name_as_Tag: "tag_arg_name t = Some nm \<Longrightarrow> name (as_Tag t) = nm"
  by (cases t) (auto simp: as_Tag_def)

lemma register_registered:
  "register reg d ts = (None, reg') \<Longrightarrow>
   registered reg' nm d' = (registered reg nm d' \<or> (d' = d \<and> Some nm \<in> set (map tag_arg_name ts)))"
proof (induction ts arbitrary: reg)
  case Nil
  then show ?case by simp
next
  case (Cons t ts)
  show ?case
  proof (cases "tag_arg_name t")
    case None
    then have "t = OtherObj" by (cases t) simp_all
    with Cons.prems show ?thesis by simp
  next
    case (Some n)
    from Cons.prems have nr: "\<not> registered reg n d"
      by (auto simp: register_step[OF Some] split: if_splits)
    with Cons.prems have "register (with_tag reg d (as_Tag t)) d ts = (None, reg')"
      by (simp add: register_step[OF Some])
    from Cons.IH[OF this] nr show ?thesis
      using registered_with_tag[of reg "as_Tag t" d nm d'] name_as_Tag[OF Some] Some
      by auto
  qed
qed

lemma register_duplicate:
  "OtherObj \<notin> set ts \<Longrightarrow>
   (fst (register reg d ts) = None \<or> (\<exists>nm. fst (register reg d ts) = Some (DuplicateTagError nm)))
   \<and> ((\<exists>nm. fst (register reg d ts) = Some (DuplicateTagError nm))
      = ((\<exists>nm. Some nm \<in> set (map tag_arg_name ts) \<and> registered reg nm d)
         \<or> \<not> distinct (map tag_arg_name ts)))"
proof (induction ts arbitrary: reg)
  case Nil
  then show ?case by simp
next
  case (Cons t ts)
  from Cons.prems obtain n where n: "tag_arg_name t = Some n" by (cases t) auto
  from Cons.prems have v: "OtherObj \<notin> set ts" by simp
  show ?case
  proof (cases "registered reg n d")
    case True
    then show ?thesis using n by (auto simp: register_step[OF n])
  next
    case False
    have r: "register reg d (t # ts) = register (with_tag reg d (as_Tag t)) d ts"
      using False by (simp add: register_step[OF n])
    have w: "\<And>nm. registered (with_tag reg d (as_Tag t)) nm d = (registered reg nm d \<or> nm = n)"
      using registered_with_tag[of reg "as_Tag t" d _ d] False name_as_Tag[OF n] by auto
    from Cons.IH[OF v, of "with_tag reg d (as_Tag t)"] show ?thesis
      unfolding r w using n False by auto
  qed
qed


lemma register_single:
  "tag_arg_name t = Some nm \<Longrightarrow> \<not> registered reg nm d \<Longrightarrow>
   register reg d [t] = (None, with_tag reg d (as_Tag t))"
  by (simp add: register_step)

text \<open>
  C7. \<open>TagProvider.provide\<close> returns \<open>None\<close> exactly for the requests that are not
  \<open>Tagged\<close>. For a \<open>Tagged\<close> request it returns an instance that is not a singleton and
  holds a new collection with no instance built yet, whose dependencies and tags are
  those registered under the name when the request is made, in registration order. A
  dependency registered under the name afterwards is in the collection of a later
  request and not in the one returned before.
\<close>

theorem TagProvider_provide_snapshot:
  "(provide reg r = None) = (case r of Tagged nm \<Rightarrow> False | NotTagged x \<Rightarrow> True)
   \<and> (\<exists>i. provide reg (Tagged nm) = Some i \<and> \<not> singleton i \<and> instances (item i) = []
          \<and> dependencies (item i) = map fst (case map_of reg nm of Some m \<Rightarrow> m | None \<Rightarrow> [])
          \<and> tags (item i) = map snd (case map_of reg nm of Some m \<Rightarrow> m | None \<Rightarrow> [])
          \<and> (\<forall>d. (d \<in> set (dependencies (item i))) = registered reg nm d))
   \<and> (\<not> registered reg nm d \<and> register reg d ts = (None, reg')
        \<and> Some nm \<in> set (map tag_arg_name ts) \<longrightarrow>
        (\<exists>i i'. provide reg (Tagged nm) = Some i \<and> provide reg' (Tagged nm) = Some i'
             \<and> d \<notin> set (dependencies (item i)) \<and> d \<in> set (dependencies (item i'))))"
proof (intro conjI impI)
  show "(provide reg r = None) = (case r of Tagged nm \<Rightarrow> False | NotTagged x \<Rightarrow> True)"
    by (cases r) (simp_all add: Let_def)
next
  show "\<exists>i. provide reg (Tagged nm) = Some i \<and> \<not> singleton i \<and> instances (item i) = []
          \<and> dependencies (item i) = map fst (case map_of reg nm of Some m \<Rightarrow> m | None \<Rightarrow> [])
          \<and> tags (item i) = map snd (case map_of reg nm of Some m \<Rightarrow> m | None \<Rightarrow> [])
          \<and> (\<forall>d. (d \<in> set (dependencies (item i))) = registered reg nm d)"
    unfolding provide_Tagged by (simp add: registered_iff)
next
  assume a: "\<not> registered reg nm d \<and> register reg d ts = (None, reg')
        \<and> Some nm \<in> set (map tag_arg_name ts)"
  then have "registered reg' nm d" using register_registered[of reg d ts reg' nm d] by simp
  with a show "\<exists>i i'. provide reg (Tagged nm) = Some i \<and> provide reg' (Tagged nm) = Some i'
             \<and> d \<notin> set (dependencies (item i)) \<and> d \<in> set (dependencies (item i'))"
    unfolding provide_Tagged by (simp add: registered_iff)
qed

theorem TagProvider_provide_snapshot_witness:
  "\<not> registered [(''t'', [(''a'', \<lparr>name = ''t'', attrs = ([] :: (string \<times> nat) list)\<rparr>)])] ''t'' ''b''
   \<and> provide [(''t'', [(''a'', \<lparr>name = ''t'', attrs = []\<rparr>)])] (NotTagged ''a'')
     = (None :: (string, nat, nat) TaggedDependencies Instance option)
   \<and> register [(''t'', [(''a'', \<lparr>name = ''t'', attrs = []\<rparr>)])] ''b'' [Str ''t'']
     = (None, [(''t'', [(''a'', \<lparr>name = ''t'', attrs = ([] :: (string \<times> nat) list)\<rparr>),
                        (''b'', \<lparr>name = ''t'', attrs = []\<rparr>)])])
   \<and> provide [(''t'', [(''a'', \<lparr>name = ''t'', attrs = []\<rparr>)])] (Tagged ''t'')
     = Some \<lparr>item = \<lparr>dependencies = [''a''], tags = [\<lparr>name = ''t'', attrs = ([] :: (string \<times> nat) list)\<rparr>],
                       instances = ([] :: nat list)\<rparr>, singleton = False\<rparr>
   \<and> provide [(''t'', [(''a'', \<lparr>name = ''t'', attrs = []\<rparr>), (''b'', \<lparr>name = ''t'', attrs = []\<rparr>)])]
        (Tagged ''t'')
     = Some \<lparr>item = \<lparr>dependencies = [''a'', ''b''],
                       tags = [\<lparr>name = ''t'', attrs = ([] :: (string \<times> nat) list)\<rparr>,
                               \<lparr>name = ''t'', attrs = []\<rparr>],
                       instances = ([] :: nat list)\<rparr>, singleton = False\<rparr>"
  using TagProvider_provide_snapshot[where reg = "[(''t'', [(''a'', \<lparr>name = ''t'', attrs = ([] :: (string \<times> nat) list)\<rparr>)])]"
      and r = "NotTagged ''a''" and nm = "''t''" and d = "''b''" and ts = "[Str ''t'']"
      and reg' = "[(''t'', [(''a'', \<lparr>name = ''t'', attrs = []\<rparr>), (''b'', \<lparr>name = ''t'', attrs = []\<rparr>)])]"]
  by (simp add: registered_def TaggedDependencies_init_eq Let_def)

text \<open>
  C8. Registering one tag raises \<open>DuplicateTagError\<close> exactly when the name of the tag
  is already registered for that dependency. Registering a list of strings and \<open>Tag\<close>s
  raises it exactly when one of the names is already registered for the dependency or
  occurs twice in the list. The same name registered for two different dependencies,
  neither of which had it, raises nothing, and the collection then returned for the
  name holds both.
\<close>

theorem TagProvider_register_duplicate:
  "((fst (register reg d [t]) = Some (DuplicateTagError nm))
      = (tag_arg_name t = Some nm \<and> registered reg nm d))
   \<and> (OtherObj \<notin> set ts \<longrightarrow>
        ((\<exists>n. fst (register reg d ts) = Some (DuplicateTagError n))
          = ((\<exists>n. Some n \<in> set (map tag_arg_name ts) \<and> registered reg n d)
             \<or> \<not> distinct (map tag_arg_name ts))))
   \<and> (a \<noteq> b \<and> \<not> registered reg nm a \<and> \<not> registered reg nm b
        \<and> tag_arg_name ta = Some nm \<and> tag_arg_name tb = Some nm \<longrightarrow>
        (\<exists>reg1 reg2 i. register reg a [ta] = (None, reg1) \<and> register reg1 b [tb] = (None, reg2)
            \<and> provide reg2 (Tagged nm) = Some i
            \<and> a \<in> set (dependencies (item i)) \<and> b \<in> set (dependencies (item i))))"
proof (intro conjI impI)
  show "(fst (register reg d [t]) = Some (DuplicateTagError nm))
      = (tag_arg_name t = Some nm \<and> registered reg nm d)"
  proof (cases "tag_arg_name t")
    case None
    then have "t = OtherObj" by (cases t) simp_all
    then show ?thesis by simp
  next
    case (Some n)
    then show ?thesis by (auto simp: register_step[OF Some])
  qed
next
  assume "OtherObj \<notin> set ts"
  from register_duplicate[OF this, of reg d]
  show "(\<exists>n. fst (register reg d ts) = Some (DuplicateTagError n))
          = ((\<exists>n. Some n \<in> set (map tag_arg_name ts) \<and> registered reg n d)
             \<or> \<not> distinct (map tag_arg_name ts))"
    by simp
next
  assume h: "a \<noteq> b \<and> \<not> registered reg nm a \<and> \<not> registered reg nm b
        \<and> tag_arg_name ta = Some nm \<and> tag_arg_name tb = Some nm"
  define reg1 where "reg1 = with_tag reg a (as_Tag ta)"
  define reg2 where "reg2 = with_tag reg1 b (as_Tag tb)"
  from h have r1: "register reg a [ta] = (None, reg1)"
    by (simp add: reg1_def register_single)
  from h have in1: "\<And>x. registered reg1 nm x = (registered reg nm x \<or> x = a)"
    unfolding reg1_def using registered_with_tag[of reg "as_Tag ta" a nm] name_as_Tag[of ta nm]
    by auto
  with h have nb: "\<not> registered reg1 nm b" by auto
  with h have r2: "register reg1 b [tb] = (None, reg2)"
    by (simp add: reg2_def register_single)
  from h nb have in2: "\<And>x. registered reg2 nm x = (registered reg1 nm x \<or> x = b)"
    unfolding reg2_def using registered_with_tag[of reg1 "as_Tag tb" b nm] name_as_Tag[of tb nm]
    by auto
  have "registered reg2 nm a" and "registered reg2 nm b" by (simp_all add: in1 in2)
  then have "\<exists>i. provide reg2 (Tagged nm) = Some i
            \<and> a \<in> set (dependencies (item i)) \<and> b \<in> set (dependencies (item i))"
    unfolding provide_Tagged by (simp add: registered_iff)
  with r1 r2 show "\<exists>reg1 reg2 i. register reg a [ta] = (None, reg1) \<and> register reg1 b [tb] = (None, reg2)
            \<and> provide reg2 (Tagged nm) = Some i
            \<and> a \<in> set (dependencies (item i)) \<and> b \<in> set (dependencies (item i))"
    by blast
qed

theorem TagProvider_register_duplicate_witness:
  "registered [(''t'', [(''a'', \<lparr>name = ''t'', attrs = ([] :: (string \<times> nat) list)\<rparr>)])] ''t'' ''a''
   \<and> \<not> registered ([] :: (string, nat) tag_registry) ''t'' ''a''
   \<and> \<not> registered ([] :: (string, nat) tag_registry) ''t'' ''b''
   \<and> register ([] :: (string, nat) tag_registry) ''a'' [Str ''t'']
     = (None, [(''t'', [(''a'', \<lparr>name = ''t'', attrs = []\<rparr>)])])
   \<and> register [(''t'', [(''a'', \<lparr>name = ''t'', attrs = ([] :: (string \<times> nat) list)\<rparr>)])] ''a'' [Str ''t'']
     = (Some (DuplicateTagError ''t''), [(''t'', [(''a'', \<lparr>name = ''t'', attrs = []\<rparr>)])])
   \<and> register ([] :: (string, nat) tag_registry) ''a'' [Str ''t'', Str ''u'', TagObj \<lparr>name = ''t'', attrs = []\<rparr>]
     = (Some (DuplicateTagError ''t''),
        [(''t'', [(''a'', \<lparr>name = ''t'', attrs = []\<rparr>)]), (''u'', [(''a'', \<lparr>name = ''u'', attrs = []\<rparr>)])])
   \<and> register [(''t'', [(''a'', \<lparr>name = ''t'', attrs = ([] :: (string \<times> nat) list)\<rparr>)])] ''b'' [Str ''t'']
     = (None, [(''t'', [(''a'', \<lparr>name = ''t'', attrs = []\<rparr>), (''b'', \<lparr>name = ''t'', attrs = []\<rparr>)])])
   \<and> (\<exists>i :: (string, nat, nat) TaggedDependencies Instance.
        provide [(''t'', [(''a'', \<lparr>name = ''t'', attrs = []\<rparr>), (''b'', \<lparr>name = ''t'', attrs = []\<rparr>)])]
          (Tagged ''t'') = Some i
        \<and> ''a'' \<in> set (dependencies (item i)) \<and> ''b'' \<in> set (dependencies (item i)))"
  using
    TagProvider_register_duplicate[where reg = "[(''t'', [(''a'', \<lparr>name = ''t'', attrs = ([] :: (string \<times> nat) list)\<rparr>)])]"
      and d = "''a''" and t = "Str ''t''" and nm = "''t''" and ts = "[Str ''t'']"
      and a = "''b''" and b = "''c''" and ta = "Str ''u''" and tb = "Str ''u''"]
    TagProvider_register_duplicate[where reg = "[] :: (string, nat) tag_registry"
      and d = "''a''" and t = "Str ''t''" and nm = "''t''"
      and ts = "[Str ''t'', Str ''u'', TagObj \<lparr>name = ''t'', attrs = []\<rparr>]"
      and a = "''a''" and b = "''b''" and ta = "Str ''t''" and tb = "Str ''t''"]
  by (simp add: registered_def TaggedDependencies_init_eq Let_def)

section \<open>The lazy method call\<close>

lemma first_access:
  assumes "lmc_singleton (lazy_method_calls st self)" and "lmc_key (lazy_method_calls st self) = None"
  shows "LazyMethodCall_get (Suc n) invoke self None ownr st
    = Some (Obj (LazyMethodCallDependencyRef (next_address st)), marked self ownr st)"
  using assms
  by (simp add: marked_def Let_def new_LazyMethodCallDependency_def setattr_def update_conv')

lemma marked_fields:
  "lmc_singleton (lazy_method_calls (marked self ownr st) self) = lmc_singleton (lazy_method_calls st self)"
  "lmc_key (lazy_method_calls (marked self ownr st) self)
     = Some (format_dependency (get_attribute_name self ownr st))"
  "map_of (class_dict (marked self ownr st) ownr) (format_dependency (get_attribute_name self ownr st))
     = Some (LazyMethodCallDependencyRef (next_address st))"
  "lazy_method_call_dependencies (marked self ownr st) (next_address st)
     = Some \<lparr>lazy_method_call = self, owner = ownr\<rparr>"
  "next_address (marked self ownr st) = Suc (next_address st)"
  "class_bases_mro (marked self ownr st) = class_bases_mro st"
  "o2 \<noteq> ownr \<Longrightarrow> class_dict (marked self ownr st) o2 = class_dict st o2"
  by (simp_all add: marked_def new_LazyMethodCallDependency_def setattr_def update_conv')

lemma later_access:
  assumes "lmc_singleton (lazy_method_calls st self)"
  shows "LazyMethodCall_get (Suc m) invoke self None ownr (marked self ownr st)
    = Some (Obj (LazyMethodCallDependencyRef (next_address st)), marked self ownr st)"
  using assms by (simp add: marked_fields)

lemma subclass_access:
  assumes "lmc_singleton (lazy_method_calls st self)"
    and "o2 \<noteq> ownr" and "class_bases_mro st o2 = ownr # others"
    and "map_of (class_dict st o2) (format_dependency (get_attribute_name self ownr st)) = None"
  shows "LazyMethodCall_get (Suc m) invoke self None o2 (marked self ownr st)
    = Some (Obj (LazyMethodCallDependencyRef (next_address st)), marked self ownr st)"
  using assms by (simp add: marked_fields)

lemma fresh_access:
  assumes "\<not> lmc_singleton (lazy_method_calls st self)"
  shows "LazyMethodCall_get (Suc n) invoke self None ownr st
    = Some (Obj (LazyMethodCallDependencyRef (next_address st)),
            snd (new_LazyMethodCallDependency self ownr st))"
  using assms by (simp add: new_LazyMethodCallDependency_def)

lemma new_fields:
  "lazy_method_calls (snd (new_LazyMethodCallDependency self ownr st)) = lazy_method_calls st"
  "next_address (snd (new_LazyMethodCallDependency self ownr st)) = Suc (next_address st)"
  "lazy_method_call_dependencies (snd (new_LazyMethodCallDependency self ownr st)) (next_address st)
     = Some \<lparr>lazy_method_call = self, owner = ownr\<rparr>"
  "a \<noteq> next_address st \<Longrightarrow>
   lazy_method_call_dependencies (snd (new_LazyMethodCallDependency self ownr st)) a
     = lazy_method_call_dependencies st a"
  by (simp_all add: new_LazyMethodCallDependency_def)

text \<open>
  What holds of the class-level access when every access goes through the class of the
  first one, or through a subclass that inherits the installed attribute: the first
  access of a singleton descriptor builds the marker at a new address and installs it
  on the class, and every later access returns the object at that address and
  changes nothing. A descriptor that is not a singleton returns an object at a new
  address on each access.
\<close>

lemma LazyMethodCall_get_one_owner:
  "(lmc_singleton (lazy_method_calls st self) \<and> lmc_key (lazy_method_calls st self) = None \<longrightarrow>
      LazyMethodCall_get (Suc n) invoke self None ownr st
        = Some (Obj (LazyMethodCallDependencyRef (next_address st)), marked self ownr st)
      \<and> lazy_method_call_dependencies (marked self ownr st) (next_address st)
           = Some \<lparr>lazy_method_call = self, owner = ownr\<rparr>
      \<and> LazyMethodCall_get (Suc m) invoke self None ownr (marked self ownr st)
           = Some (Obj (LazyMethodCallDependencyRef (next_address st)), marked self ownr st)
      \<and> (o2 \<noteq> ownr \<and> class_bases_mro st o2 = ownr # others
           \<and> map_of (class_dict st o2) (format_dependency (get_attribute_name self ownr st)) = None \<longrightarrow>
          LazyMethodCall_get (Suc m) invoke self None o2 (marked self ownr st)
            = Some (Obj (LazyMethodCallDependencyRef (next_address st)), marked self ownr st)))
   \<and> (\<not> lmc_singleton (lazy_method_calls st self) \<longrightarrow>
      LazyMethodCall_get (Suc n) invoke self None ownr st
        = Some (Obj (LazyMethodCallDependencyRef (next_address st)),
                snd (new_LazyMethodCallDependency self ownr st))
      \<and> LazyMethodCall_get (Suc m) invoke self None ownr (snd (new_LazyMethodCallDependency self ownr st))
        = Some (Obj (LazyMethodCallDependencyRef (Suc (next_address st))),
                snd (new_LazyMethodCallDependency self ownr
                       (snd (new_LazyMethodCallDependency self ownr st))))
      \<and> LazyMethodCallDependencyRef (Suc (next_address st)) \<noteq> LazyMethodCallDependencyRef (next_address st))"
proof (intro conjI impI)
  assume a: "lmc_singleton (lazy_method_calls st self) \<and> lmc_key (lazy_method_calls st self) = None"
  then show "LazyMethodCall_get (Suc n) invoke self None ownr st
        = Some (Obj (LazyMethodCallDependencyRef (next_address st)), marked self ownr st)"
    by (intro first_access) simp_all
  show "lazy_method_call_dependencies (marked self ownr st) (next_address st)
           = Some \<lparr>lazy_method_call = self, owner = ownr\<rparr>"
    by (rule marked_fields)
  from a show "LazyMethodCall_get (Suc m) invoke self None ownr (marked self ownr st)
           = Some (Obj (LazyMethodCallDependencyRef (next_address st)), marked self ownr st)"
    by (intro later_access) simp
  assume "o2 \<noteq> ownr \<and> class_bases_mro st o2 = ownr # others
           \<and> map_of (class_dict st o2) (format_dependency (get_attribute_name self ownr st)) = None"
  with a show "LazyMethodCall_get (Suc m) invoke self None o2 (marked self ownr st)
            = Some (Obj (LazyMethodCallDependencyRef (next_address st)), marked self ownr st)"
    by (intro subclass_access) simp_all
next
  assume a: "\<not> lmc_singleton (lazy_method_calls st self)"
  then show "LazyMethodCall_get (Suc n) invoke self None ownr st
        = Some (Obj (LazyMethodCallDependencyRef (next_address st)),
                snd (new_LazyMethodCallDependency self ownr st))"
    by (rule fresh_access)
  from a have "\<not> lmc_singleton (lazy_method_calls (snd (new_LazyMethodCallDependency self ownr st)) self)"
    by (simp add: new_fields)
  from fresh_access[OF this, of m invoke ownr]
  show "LazyMethodCall_get (Suc m) invoke self None ownr (snd (new_LazyMethodCallDependency self ownr st))
        = Some (Obj (LazyMethodCallDependencyRef (Suc (next_address st))),
                snd (new_LazyMethodCallDependency self ownr
                       (snd (new_LazyMethodCallDependency self ownr st))))"
    by (simp add: new_fields)
  show "LazyMethodCallDependencyRef (Suc (next_address st)) \<noteq> LazyMethodCallDependencyRef (next_address st)"
    by simp
qed

text \<open>
  C9. The claim fails when the first class-level access of a singleton descriptor goes
  through a subclass. Class 0 defines the descriptor under the name \<open>conf\<close> and class 1
  inherits it. The access through class 1 finds no name for the descriptor in the
  \<open>__dict__\<close> of class 1, so the key becomes \<open>None_dependency\<close> and the marker is
  installed on class 1. The access through class 0 that follows, the first for the
  class that owns the descriptor, finds the key set and no such attribute on class 0:
  it raises \<open>AttributeError\<close> and returns no marker.
\<close>

theorem LazyMethodCall_get_subclass_first:
  "LazyMethodCall_get (Suc 0) invoke 0 None 1 (example_store True)
     = Some (Obj (LazyMethodCallDependencyRef 7), marked 0 1 (example_store True))
   \<and> lmc_key (lazy_method_calls (marked 0 1 (example_store True)) 0) = Some ''None_dependency''
   \<and> class_dict (marked 0 1 (example_store True)) 1
       = [(''None_dependency'', LazyMethodCallDependencyRef 7)]
   \<and> class_dict (marked 0 1 (example_store True)) 0 = [(''conf'', LazyMethodCallRef 0)]
   \<and> LazyMethodCall_get (Suc 0) invoke 0 None 0 (marked 0 1 (example_store True))
     = Some (RaisedAttributeError, marked 0 1 (example_store True))"
  by (simp add: example_store_def marked_def new_LazyMethodCallDependency_def setattr_def
      get_attribute_name_def Let_def)

section \<open>The claim about the proxy container\<close>



end
